theory Spec2Isabelle
  imports Complex_Main "HOL-Library.Word"
begin

section \<open>Results and errors\<close>

text \<open>
  A function that can throw returns a sum: \<open>Inl\<close> the error, \<open>Inr\<close> the value.
  \<open>thenE\<close> continues with the value and passes an error on.
\<close>

definition thenE :: "'e + 'a \<Rightarrow> ('a \<Rightarrow> 'e + 'b) \<Rightarrow> 'e + 'b" where
  "thenE r f = (case r of Inl e \<Rightarrow> Inl e | Inr v \<Rightarrow> f v)"

section \<open>JavaScript strings\<close>

text \<open>
  A JavaScript string is a sequence of UTF-16 code units; the model is \<open>string\<close>,
  whose characters are the code units 0 to 255. The regular-expression class \<open>\s\<close> and
  \<open>String.prototype.trim\<close> use the same white-space set, of which tab, line feed,
  vertical tab, form feed, carriage return, space and no-break space fall in that range.
\<close>

definition isSpace :: "char \<Rightarrow> bool" where
  "isSpace c = (of_char c \<in> {9, 10, 11, 12, 13, 32, 160 :: nat})"

definition trim :: "string \<Rightarrow> string" where
  "trim s = rev (dropWhile isSpace (rev (dropWhile isSpace s)))"

definition startsWith :: "string \<Rightarrow> string \<Rightarrow> bool" where
  \<comment> \<open>\<open>s.startsWith(p)\<close>, pattern first\<close>
  "startsWith p s = (take (length p) s = p)"

fun indexOf :: "string \<Rightarrow> string \<Rightarrow> nat option" where
  \<comment> \<open>\<open>s.indexOf(p)\<close>, pattern first; \<open>None\<close> is -1\<close>
  "indexOf p [] = (if p = [] then Some 0 else None)"
| "indexOf p (c # cs) =
     (if startsWith p (c # cs) then Some 0 else map_option Suc (indexOf p cs))"

fun lastIndexOf :: "string \<Rightarrow> string \<Rightarrow> nat option" where
  "lastIndexOf p [] = (if p = [] then Some 0 else None)"
| "lastIndexOf p (c # cs) =
     (case lastIndexOf p cs of
        Some i \<Rightarrow> Some (Suc i)
      | None \<Rightarrow> if startsWith p (c # cs) then Some 0 else None)"

definition includesStr :: "string \<Rightarrow> string \<Rightarrow> bool" where
  \<comment> \<open>\<open>s.includes(p)\<close>, pattern first\<close>
  "includesStr p s = (indexOf p s \<noteq> None)"

definition substring :: "string \<Rightarrow> nat \<Rightarrow> nat \<Rightarrow> string" where
  \<comment> \<open>\<open>s.substring(a, b)\<close> for \<open>a \<le> b\<close>\<close>
  "substring s a b = take (b - a) (drop a s)"

definition toLowerChar :: "char \<Rightarrow> char" where
  "toLowerChar c =
     (let n = (of_char c :: nat)
      in if (65 \<le> n \<and> n \<le> 90) \<or> (192 \<le> n \<and> n \<le> 222 \<and> n \<noteq> 215)
         then char_of (n + 32) else c)"

definition toLowerCase :: "string \<Rightarrow> string" where
  "toLowerCase s = map toLowerChar s"

subsection \<open>Regular-expression replacement\<close>

text \<open>
  Each regular expression of the source is modelled by its anchored matcher: a function
  that, given the text from the current position on, returns the length of the match
  starting there and its replacement text. \<open>replaceAll\<close> is \<open>String.prototype.replace\<close>
  with a global pattern: leftmost match first, scanning resumes after the match, and an
  empty match advances by one character. \<open>replaceFirst\<close> is the same without the
  \<open>g\<close> flag.
\<close>

type_synonym matcher = "string \<Rightarrow> (nat \<times> string) option"

fun replaceAll :: "matcher \<Rightarrow> string \<Rightarrow> string" where
  "replaceAll m [] = (case m [] of Some (n, r) \<Rightarrow> r | None \<Rightarrow> [])"
| "replaceAll m (c # cs) =
     (case m (c # cs) of
        Some (n, r) \<Rightarrow>
          (if n = 0 then r @ c # replaceAll m cs
           else r @ replaceAll m (drop n (c # cs)))
      | None \<Rightarrow> c # replaceAll m cs)"

fun replaceFirst :: "matcher \<Rightarrow> string \<Rightarrow> string" where
  "replaceFirst m [] = (case m [] of Some (n, r) \<Rightarrow> r | None \<Rightarrow> [])"
| "replaceFirst m (c # cs) =
     (case m (c # cs) of
        Some (n, r) \<Rightarrow> r @ drop n (c # cs)
      | None \<Rightarrow> c # replaceFirst m cs)"

definition optNewline :: "string \<Rightarrow> nat" where
  \<comment> \<open>the length matched by \<open>\n?\<close>\<close>
  "optNewline s = (if startsWith [CHR 0x0A] s then 1 else 0)"

definition thinkTag :: matcher where
  \<comment> \<open>\<open>/<think>[\s\S]*?<\/think>/\<close>: the lazy body ends at the first close tag\<close>
  "thinkTag s =
     (if startsWith ''<think>'' s then
        (case indexOf ''</think>'' (drop 7 s) of
           Some k \<Rightarrow> Some (7 + k + 8, [])
         | None \<Rightarrow> None)
      else None)"

definition jsonFence :: matcher where
  \<comment> \<open>\<open>/```json\n?|```\n?/\<close>\<close>
  "jsonFence s =
     (if startsWith ''```json'' s then Some (7 + optNewline (drop 7 s), [])
      else if startsWith ''```'' s then Some (3 + optNewline (drop 3 s), [])
      else None)"

definition tsFence :: matcher where
  \<comment> \<open>\<open>/```typescript\n?|```ts\n?/\<close>\<close>
  "tsFence s =
     (if startsWith ''```typescript'' s then Some (13 + optNewline (drop 13 s), [])
      else if startsWith ''```ts'' s then Some (5 + optNewline (drop 5 s), [])
      else None)"

section \<open>Response sanitizer (llm-utils)\<close>

definition cleanResponseForJSON :: "string \<Rightarrow> string" where
  "cleanResponseForJSON response =
     (let cleaned = trim (replaceAll tsFence (replaceAll jsonFence (replaceAll thinkTag response)));
          startBrace = indexOf ''{'' cleaned;
          lastBrace = lastIndexOf ''}'' cleaned
      in case (startBrace, lastBrace) of
           (Some a, Some b) \<Rightarrow> if b > a then substring cleaned a (b + 1) else cleaned
         | _ \<Rightarrow> cleaned)"

subsection \<open>The repair pass\<close>

definition isIdentStart :: "char \<Rightarrow> bool" where
  \<comment> \<open>\<open>[a-zA-Z_]\<close>\<close>
  "isIdentStart c =
     (let n = (of_char c :: nat) in (97 \<le> n \<and> n \<le> 122) \<or> (65 \<le> n \<and> n \<le> 90) \<or> n = 95)"

definition isIdentChar :: "char \<Rightarrow> bool" where
  \<comment> \<open>\<open>[a-zA-Z0-9_]\<close>\<close>
  "isIdentChar c = (isIdentStart c \<or> (let n = (of_char c :: nat) in 48 \<le> n \<and> n \<le> 57))"

definition trailingComma :: matcher where
  \<comment> \<open>\<open>/,(\s*[}\]])/\<close> replaced by \<open>$1\<close>\<close>
  "trailingComma s =
     (case s of
        c # t \<Rightarrow>
          (if c = CHR '','' then
             (let ws = takeWhile isSpace t in
              case dropWhile isSpace t of
                b # _ \<Rightarrow> if b = CHR ''}'' \<or> b = CHR '']''
                         then Some (1 + length ws + 1, ws @ [b]) else None
              | [] \<Rightarrow> None)
           else None)
      | [] \<Rightarrow> None)"

definition escapedNewline :: matcher where
  \<comment> \<open>\<open>/(":\s*")([^"]*)\\n([^"]*")/\<close> replaced by \<open>$1$2 $3\<close>: the greedy second
      group gives way to the last backslash-n before the closing quote\<close>
  "escapedNewline s =
     (if startsWith ''\":'' s then
        (let t = drop 2 s; ws = takeWhile isSpace t in
         case dropWhile isSpace t of
           q # u \<Rightarrow>
             (if q = CHR ''\"'' then
                (let run = takeWhile (\<lambda>c. c \<noteq> CHR ''\"'') u in
                 case dropWhile (\<lambda>c. c \<noteq> CHR ''\"'') u of
                   q2 # _ \<Rightarrow>
                     (case lastIndexOf [CHR 0x5C, CHR ''n''] run of
                        Some j \<Rightarrow>
                          Some (2 + length ws + 1 + length run + 1,
                                ''\":'' @ ws @ ''\"'' @ take j run @ '' '' @ drop (j + 2) run @ ''\"'')
                      | None \<Rightarrow> None)
                 | [] \<Rightarrow> None)
              else None)
         | [] \<Rightarrow> None)
      else None)"

definition singleQuotedKey :: matcher where
  \<comment> \<open>\<open>/([{,]\s*)'([^']*)'(\s*:)/\<close> replaced by \<open>$1"$2"$3\<close>\<close>
  "singleQuotedKey s =
     (case s of
        c # t \<Rightarrow>
          (if c = CHR ''{'' \<or> c = CHR '','' then
             (let ws1 = takeWhile isSpace t in
              case dropWhile isSpace t of
                q # u \<Rightarrow>
                  (if q = CHR 0x27 then
                     (let name = takeWhile (\<lambda>c. c \<noteq> CHR 0x27) u in
                      case dropWhile (\<lambda>c. c \<noteq> CHR 0x27) u of
                        q2 # v \<Rightarrow>
                          (let ws2 = takeWhile isSpace v in
                           case dropWhile isSpace v of
                             d # _ \<Rightarrow>
                               (if d = CHR '':'' then
                                  Some (1 + length ws1 + 1 + length name + 1 + length ws2 + 1,
                                        c # ws1 @ ''\"'' @ name @ ''\"'' @ ws2 @ '':'')
                                else None)
                           | [] \<Rightarrow> None)
                      | [] \<Rightarrow> None)
                   else None)
              | [] \<Rightarrow> None)
           else None)
      | [] \<Rightarrow> None)"

definition bareKey :: matcher where
  \<comment> \<open>\<open>/([{,]\s*)([a-zA-Z_][a-zA-Z0-9_]*)\s*:/\<close> replaced by \<open>$1"$2":\<close>\<close>
  "bareKey s =
     (case s of
        c # t \<Rightarrow>
          (if c = CHR ''{'' \<or> c = CHR '','' then
             (let ws1 = takeWhile isSpace t; u = dropWhile isSpace t in
              case u of
                i # _ \<Rightarrow>
                  (if isIdentStart i then
                     (let name = takeWhile isIdentChar u; v = dropWhile isIdentChar u;
                          ws2 = takeWhile isSpace v in
                      case dropWhile isSpace v of
                        d # _ \<Rightarrow>
                          (if d = CHR '':'' then
                             Some (1 + length ws1 + length name + length ws2 + 1,
                                   c # ws1 @ ''\"'' @ name @ ''\":'')
                           else None)
                      | [] \<Rightarrow> None)
                   else None)
              | [] \<Rightarrow> None)
           else None)
      | [] \<Rightarrow> None)"

definition finalComma :: matcher where
  \<comment> \<open>\<open>/,(\s*)$/\<close> replaced by \<open>$1\<close>\<close>
  "finalComma s =
     (case s of
        c # t \<Rightarrow> if c = CHR '','' \<and> list_all isSpace t then Some (1 + length t, t) else None
      | [] \<Rightarrow> None)"

definition fixCommonJSONIssues :: "string \<Rightarrow> string" where
  "fixCommonJSONIssues jsonStr =
     replaceFirst finalComma
       (replaceAll bareKey
         (replaceAll singleQuotedKey
           (replaceAll escapedNewline
             (replaceAll trailingComma jsonStr))))"

section \<open>JSON values\<close>

text \<open>
  A parsed JSON value. An object is the list of its own properties in the order
  \<open>Object.entries\<close> enumerates them; numbers are exact rationals (the source never
  computes with them).
\<close>

datatype json =
    JNull
  | JBool bool
  | JNum rat
  | JStr string
  | JArr "json list"
  | JObj "(string \<times> json) list"

datatype js_error = Error string | TypeError string | SyntaxError string

definition message :: "js_error \<Rightarrow> string" where
  "message e = (case e of Error m \<Rightarrow> m | TypeError m \<Rightarrow> m | SyntaxError m \<Rightarrow> m)"

fun truthy :: "json option \<Rightarrow> bool" where
  \<comment> \<open>\<open>None\<close> is \<open>undefined\<close>\<close>
  "truthy None = False"
| "truthy (Some JNull) = False"
| "truthy (Some (JBool b)) = b"
| "truthy (Some (JNum n)) = (n \<noteq> 0)"
| "truthy (Some (JStr s)) = (s \<noteq> [])"
| "truthy (Some (JArr xs)) = True"
| "truthy (Some (JObj kvs)) = True"

definition digitChar :: "nat \<Rightarrow> char" where
  "digitChar d = char_of (48 + d)"

function showNat :: "nat \<Rightarrow> string" where
  "showNat n = (if n < 10 then [digitChar n] else showNat (n div 10) @ [digitChar (n mod 10)])"
  by pat_completeness auto
termination
  by (relation "measure id") auto

declare showNat.simps [simp del]

definition getProp :: "json \<Rightarrow> string \<Rightarrow> js_error + json option" where
  \<comment> \<open>\<open>value.name\<close> for a property name that is neither an index nor \<open>length\<close>:
      a \<open>TypeError\<close> on \<open>null\<close>, \<open>undefined\<close> on the other non-objects\<close>
  "getProp v name =
     (case v of
        JNull \<Rightarrow> Inl (TypeError (''Cannot read properties of null (reading '' @ [CHR 0x27] @ name @ [CHR 0x27] @ '')''))
      | JObj kvs \<Rightarrow> Inr (map_of kvs name)
      | _ \<Rightarrow> Inr None)"

definition entries :: "json \<Rightarrow> js_error + (string \<times> json) list" where
  \<comment> \<open>\<open>Object.entries(value)\<close>\<close>
  "entries v =
     (case v of
        JNull \<Rightarrow> Inl (TypeError ''Cannot convert undefined or null to object'')
      | JObj kvs \<Rightarrow> Inr kvs
      | JArr xs \<Rightarrow> Inr (map (\<lambda>i. (showNat i, xs ! i)) [0..<length xs])
      | JStr s \<Rightarrow> Inr (map (\<lambda>i. (showNat i, JStr [s ! i])) [0..<length s])
      | _ \<Rightarrow> Inr [])"

section \<open>Content validator (llm-utils)\<close>

definition placeholderTerms :: "string list" where
  "placeholderTerms =
     [''string'', ''your title here'', ''title here'', ''section title'',
      ''description here'', ''add description'', ''insert'', ''example'',
      ''placeholder'', ''template'', ''sample'', ''todo'', ''tbd'', ''fill in'']"

definition validDurations :: "string list" where
  "validDurations = [''3 minutes'', ''2-3 minutes'', ''12-15 minutes'', ''10-15 minutes'']"

definition hasPlaceholder :: "string \<Rightarrow> bool" where
  \<comment> \<open>\<open>placeholderTerms.some(term => lowerValue.includes(term))\<close>\<close>
  "hasPlaceholder lowerValue = list_ex (\<lambda>term. includesStr term lowerValue) placeholderTerms"

definition isValidDuration :: "string \<Rightarrow> bool" where
  \<comment> \<open>\<open>validDurations.some(dur => lowerValue.includes(dur.toLowerCase()))\<close>\<close>
  "isValidDuration lowerValue =
     list_ex (\<lambda>dur. includesStr (toLowerCase dur) lowerValue) validDurations"

definition quoted :: "string \<Rightarrow> string" where
  "quoted v = [CHR 0x22] @ v @ [CHR 0x22]"

fun overviewLoop :: "(string \<times> json) list \<Rightarrow> js_error + unit" where
  "overviewLoop [] = Inr ()"
| "overviewLoop ((key, value) # rest) =
     (case value of
        JStr v \<Rightarrow>
          (let lowerValue = toLowerCase v in
           if key = ''totalDuration'' \<and> isValidDuration lowerValue then overviewLoop rest
           else if hasPlaceholder lowerValue \<or> length (trim v) < 3 then
             Inl (Error (''Overview '' @ key
                         @ '' contains placeholder or insufficient content: '' @ quoted v))
           else overviewLoop rest)
      | _ \<Rightarrow> overviewLoop rest)"

fun keyPointsLoop :: "nat \<Rightarrow> nat \<Rightarrow> json list \<Rightarrow> js_error + unit" where
  \<comment> \<open>section index \<open>i\<close>, point index \<open>j\<close> (both from 0)\<close>
  "keyPointsLoop i j [] = Inr ()"
| "keyPointsLoop i j (point # rest) =
     (case point of
        JStr p \<Rightarrow>
          (let lowerPoint = toLowerCase p in
           if hasPlaceholder lowerPoint \<or> length (trim p) < 8 then
             Inl (Error (''Section '' @ showNat (i + 1) @ '' key point '' @ showNat (j + 1)
                         @ '' contains placeholder content: '' @ quoted p))
           else keyPointsLoop i (j + 1) rest)
      | _ \<Rightarrow> keyPointsLoop i (j + 1) rest)"

fun sectionLoop :: "nat \<Rightarrow> (string \<times> json) list \<Rightarrow> js_error + unit" where
  "sectionLoop i [] = Inr ()"
| "sectionLoop i ((key, value) # rest) =
     (case value of
        JStr v \<Rightarrow>
          (let lowerValue = toLowerCase v in
           if key = ''duration'' \<and> isValidDuration lowerValue then sectionLoop i rest
           else
             (let minLength = (if key = ''id'' then 3 else if key = ''title'' then 8 else 5 :: nat) in
              if hasPlaceholder lowerValue \<or> length (trim v) < minLength then
                Inl (Error (''Section '' @ showNat (i + 1) @ '' '' @ key
                            @ '' contains placeholder content: '' @ quoted v))
              else sectionLoop i rest))
      | JArr points \<Rightarrow>
          (if key = ''keyPoints'' then
             thenE (keyPointsLoop i 0 points) (\<lambda>_. sectionLoop i rest)
           else sectionLoop i rest)
      | _ \<Rightarrow> sectionLoop i rest)"

fun sectionsLoop :: "nat \<Rightarrow> json list \<Rightarrow> js_error + unit" where
  "sectionsLoop i [] = Inr ()"
| "sectionsLoop i (section # rest) =
     thenE (entries section) (\<lambda>kvs.
     thenE (sectionLoop i kvs) (\<lambda>_.
       sectionsLoop (i + 1) rest))"

fun takeawaysLoop :: "nat \<Rightarrow> json list \<Rightarrow> js_error + unit" where
  "takeawaysLoop j [] = Inr ()"
| "takeawaysLoop j (takeaway # rest) =
     (case takeaway of
        JStr t \<Rightarrow>
          (let lowerTakeaway = toLowerCase t in
           if hasPlaceholder lowerTakeaway \<or> length (trim t) < 8 then
             Inl (Error (''Final thoughts takeaway '' @ showNat (j + 1)
                         @ '' contains placeholder content: '' @ quoted t))
           else takeawaysLoop (j + 1) rest)
      | _ \<Rightarrow> takeawaysLoop (j + 1) rest)"

fun finalThoughtsLoop :: "(string \<times> json) list \<Rightarrow> js_error + unit" where
  "finalThoughtsLoop [] = Inr ()"
| "finalThoughtsLoop ((key, value) # rest) =
     (case value of
        JStr v \<Rightarrow>
          (let lowerValue = toLowerCase v in
           if key = ''duration'' \<and> isValidDuration lowerValue then finalThoughtsLoop rest
           else if hasPlaceholder lowerValue \<or> length (trim v) < 3 then
             Inl (Error (''Final thoughts '' @ key
                         @ '' contains placeholder content: '' @ quoted v))
           else finalThoughtsLoop rest)
      | JArr takeaways \<Rightarrow>
          (if key = ''keyTakeaways'' then
             thenE (takeawaysLoop 0 takeaways) (\<lambda>_. finalThoughtsLoop rest)
           else finalThoughtsLoop rest)
      | _ \<Rightarrow> finalThoughtsLoop rest)"

definition validateOutlineContent :: "json \<Rightarrow> js_error + bool" where
  "validateOutlineContent outline =
     thenE (getProp outline ''overview'') (\<lambda>overview.
     thenE (if truthy overview then thenE (entries (the overview)) overviewLoop else Inr ()) (\<lambda>_.
     thenE (getProp outline ''sections'') (\<lambda>sections.
     thenE (case sections of Some (JArr xs) \<Rightarrow> sectionsLoop 0 xs | _ \<Rightarrow> Inr ()) (\<lambda>_.
     thenE (getProp outline ''finalThoughts'') (\<lambda>finalThoughts.
     thenE (if truthy finalThoughts then thenE (entries (the finalThoughts)) finalThoughtsLoop
            else Inr ()) (\<lambda>_.
       Inr True))))))"

section \<open>Structured parsing (llm-utils)\<close>

definition checkParsed :: "bool \<Rightarrow> json \<Rightarrow> js_error + json" where
  \<comment> \<open>the validation step shared by both attempts\<close>
  "checkParsed validateContent parsed =
     (if validateContent \<and> (case parsed of JObj _ \<Rightarrow> True | JArr _ \<Rightarrow> True | _ \<Rightarrow> False) then
        thenE (getProp parsed ''overview'') (\<lambda>overview.
        thenE (getProp parsed ''sections'') (\<lambda>sections.
        thenE (getProp parsed ''finalThoughts'') (\<lambda>finalThoughts.
          if truthy overview \<or> truthy sections \<or> truthy finalThoughts then
            thenE (validateOutlineContent parsed) (\<lambda>_. Inr parsed)
          else Inr parsed)))
      else Inr parsed)"

definition parseJSONFromResponse ::
    "(string \<Rightarrow> js_error + json) \<Rightarrow> string \<Rightarrow> bool \<Rightarrow> js_error + json" where
  \<comment> \<open>\<open>JSON_parse\<close> is the platform's \<open>JSON.parse\<close>\<close>
  "parseJSONFromResponse JSON_parse response validateContent =
     (let cleanJson = cleanResponseForJSON response in
      if cleanJson = [] \<or> length cleanJson < 10 then
        Inl (Error ''Response appears to be empty or too short to contain valid JSON'')
      else
        (case thenE (JSON_parse cleanJson) (checkParsed validateContent) of
           Inr parsed \<Rightarrow> Inr parsed
         | Inl error \<Rightarrow>
             (let fixedJson = fixCommonJSONIssues cleanJson in
              case thenE (JSON_parse fixedJson) (checkParsed validateContent) of
                Inr parsed \<Rightarrow> Inr parsed
              | Inl secondError \<Rightarrow>
                  (let errorMessage = message error in
                   if includesStr ''Unterminated string'' errorMessage then
                     Inl (Error ''JSON parsing failed: Found unterminated string. The LLM may have generated incomplete JSON.'')
                   else if includesStr ''Expected'' errorMessage then
                     Inl (Error ''JSON parsing failed: Invalid JSON structure. The LLM may have generated malformed JSON.'')
                   else if includesStr ''placeholder content'' errorMessage then
                     Inl (Error (''Content validation failed: '' @ errorMessage))
                   else
                     Inl (Error (''Failed to parse JSON response: '' @ errorMessage
                                 @ ''. Please try again with more specific content.''))))))"

section \<open>JSON.parse\<close>

text \<open>
  The platform's parser, following the JSON grammar: white space is space, tab, line
  feed and carriage return; strings may not hold raw control characters; a later
  duplicate of a property name overwrites the value in place; \<open>Object.entries\<close> lists
  array-index names first, in ascending order. Escapes \<open>\uXXXX\<close> above \<open>00FF\<close> have no
  counterpart in \<open>string\<close> and are rejected. The recursion carries fuel; a value never
  needs more than one unit per character, and \<open>jsonParse\<close> supplies that.
\<close>

definition isJsonWs :: "char \<Rightarrow> bool" where
  "isJsonWs c = (of_char c \<in> {32, 9, 10, 13 :: nat})"

definition skipWs :: "string \<Rightarrow> string" where
  "skipWs s = dropWhile isJsonWs s"

definition isDigit :: "char \<Rightarrow> bool" where
  "isDigit c = (let n = (of_char c :: nat) in 48 \<le> n \<and> n \<le> 57)"

definition digitsValue :: "string \<Rightarrow> nat" where
  "digitsValue ds = foldl (\<lambda>acc c. 10 * acc + (of_char c - 48)) 0 ds"

definition hexValue :: "char \<Rightarrow> nat option" where
  "hexValue c =
     (let n = (of_char c :: nat) in
      if 48 \<le> n \<and> n \<le> 57 then Some (n - 48)
      else if 97 \<le> n \<and> n \<le> 102 then Some (n - 87)
      else if 65 \<le> n \<and> n \<le> 70 then Some (n - 55)
      else None)"

definition unescape :: "char \<Rightarrow> char option" where
  "unescape e =
     (if e = CHR 0x22 then Some (CHR 0x22)
      else if e = CHR 0x5C then Some (CHR 0x5C)
      else if e = CHR ''/'' then Some (CHR ''/'')
      else if e = CHR ''b'' then Some (CHR 0x08)
      else if e = CHR ''f'' then Some (CHR 0x0C)
      else if e = CHR ''n'' then Some (CHR 0x0A)
      else if e = CHR ''r'' then Some (CHR 0x0D)
      else if e = CHR ''t'' then Some (CHR 0x09)
      else None)"

definition unicodeEscape :: "string \<Rightarrow> char option" where
  \<comment> \<open>the four hexadecimal digits after \<open>\u\<close>\<close>
  "unicodeEscape hs =
     (case map hexValue hs of
        [Some a, Some b, Some c, Some d] \<Rightarrow>
          (if a = 0 \<and> b = 0 then Some (char_of (16 * c + d)) else None)
      | _ \<Rightarrow> None)"

fun parseChars :: "string \<Rightarrow> (string \<times> string) option" where
  \<comment> \<open>the characters of a string literal after its opening quote, and the rest\<close>
  "parseChars [] = None"
| "parseChars (c # cs) =
     (if c = CHR 0x22 then Some ([], cs)
      else if c = CHR 0x5C then
        (case cs of
           [] \<Rightarrow> None
         | e # r \<Rightarrow>
             (if e = CHR ''u'' then
                (case unicodeEscape (take 4 r) of
                   None \<Rightarrow> None
                 | Some d \<Rightarrow> map_option (\<lambda>(str, rest). (d # str, rest)) (parseChars (drop 4 r)))
              else
                (case unescape e of
                   None \<Rightarrow> None
                 | Some d \<Rightarrow> map_option (\<lambda>(str, rest). (d # str, rest)) (parseChars r))))
      else if (of_char c :: nat) < 32 then None
      else map_option (\<lambda>(str, rest). (c # str, rest)) (parseChars cs))"

definition parseNumber :: "string \<Rightarrow> (rat \<times> string) option" where
  \<comment> \<open>\<open>-? (0 | [1-9][0-9]*) (. [0-9]+)? ([eE] [+-]? [0-9]+)?\<close>\<close>
  "parseNumber s =
     (let neg = startsWith ''-'' s;
          s1 = (if neg then drop 1 s else s);
          ip = (if startsWith ''0'' s1 then ''0'' else takeWhile isDigit s1);
          s2 = drop (length ip) s1;
          hasFrac = startsWith ''.'' s2;
          fp = (if hasFrac then takeWhile isDigit (drop 1 s2) else []);
          s3 = (if hasFrac then drop (1 + length fp) s2 else s2);
          hasExp = (startsWith ''e'' s3 \<or> startsWith ''E'' s3);
          s4 = (if hasExp then drop 1 s3 else s3);
          eneg = startsWith ''-'' s4;
          s5 = (if hasExp \<and> (eneg \<or> startsWith ''+'' s4) then drop 1 s4 else s4);
          ep = (if hasExp then takeWhile isDigit s5 else []);
          s6 = drop (length ep) s5;
          mant = (of_nat (digitsValue (ip @ fp)) :: rat) / 10 ^ length fp;
          scaled = (if eneg then mant / 10 ^ digitsValue ep else mant * 10 ^ digitsValue ep)
      in if ip = [] \<or> (hasFrac \<and> fp = []) \<or> (hasExp \<and> ep = []) then None
         else Some (if neg then - scaled else scaled, s6))"

definition isArrayIndex :: "string \<Rightarrow> bool" where
  \<comment> \<open>a canonical decimal below \<open>2^32 - 1\<close>\<close>
  "isArrayIndex k =
     (k \<noteq> [] \<and> list_all isDigit k \<and> (k = ''0'' \<or> hd k \<noteq> CHR ''0'')
      \<and> digitsValue k < 4294967295)"

fun putProp :: "(string \<times> json) list \<Rightarrow> string \<times> json \<Rightarrow> (string \<times> json) list" where
  "putProp [] kv = [kv]"
| "putProp (p # ps) kv = (if fst p = fst kv then kv # ps else p # putProp ps kv)"

definition ownProperties :: "(string \<times> json) list \<Rightarrow> (string \<times> json) list" where
  \<comment> \<open>the parsed members in source order, as \<open>Object.entries\<close> lists them\<close>
  "ownProperties members =
     (let props = foldl putProp [] members
      in sort_key (\<lambda>kv. digitsValue (fst kv)) (filter (\<lambda>kv. isArrayIndex (fst kv)) props)
         @ filter (\<lambda>kv. \<not> isArrayIndex (fst kv)) props)"

fun parseValue :: "nat \<Rightarrow> string \<Rightarrow> (json \<times> string) option"
  and parseElements :: "nat \<Rightarrow> string \<Rightarrow> (json list \<times> string) option"
  and parseMembers :: "nat \<Rightarrow> string \<Rightarrow> ((string \<times> json) list \<times> string) option"
where
  "parseValue 0 s = None"
| "parseValue (Suc fuel) s =
     (case skipWs s of
        [] \<Rightarrow> None
      | c # r \<Rightarrow>
          (if c = CHR ''{'' then
             (case skipWs r of
                [] \<Rightarrow> None
              | d # r2 \<Rightarrow>
                  if d = CHR ''}'' then Some (JObj [], r2)
                  else map_option (\<lambda>(kvs, rest). (JObj (ownProperties kvs), rest))
                         (parseMembers fuel r))
           else if c = CHR ''['' then
             (case skipWs r of
                [] \<Rightarrow> None
              | d # r2 \<Rightarrow>
                  if d = CHR '']'' then Some (JArr [], r2)
                  else map_option (\<lambda>(vs, rest). (JArr vs, rest)) (parseElements fuel r))
           else if c = CHR 0x22 then
             map_option (\<lambda>(str, rest). (JStr str, rest)) (parseChars r)
           else if startsWith ''true'' (c # r) then Some (JBool True, drop 4 (c # r))
           else if startsWith ''false'' (c # r) then Some (JBool False, drop 5 (c # r))
           else if startsWith ''null'' (c # r) then Some (JNull, drop 4 (c # r))
           else map_option (\<lambda>(n, rest). (JNum n, rest)) (parseNumber (c # r))))"
| "parseElements 0 s = None"
| "parseElements (Suc fuel) s =
     (case parseValue fuel s of
        None \<Rightarrow> None
      | Some (v, r) \<Rightarrow>
          (case skipWs r of
             [] \<Rightarrow> None
           | d # r2 \<Rightarrow>
               if d = CHR '','' then
                 map_option (\<lambda>(vs, rest). (v # vs, rest)) (parseElements fuel r2)
               else if d = CHR '']'' then Some ([v], r2)
               else None))"
| "parseMembers 0 s = None"
| "parseMembers (Suc fuel) s =
     (case skipWs s of
        [] \<Rightarrow> None
      | q # r \<Rightarrow>
          if q = CHR 0x22 then
            (case parseChars r of
               None \<Rightarrow> None
             | Some (k, r1) \<Rightarrow>
                 (case skipWs r1 of
                    [] \<Rightarrow> None
                  | d # r2 \<Rightarrow>
                      if d = CHR '':'' then
                        (case parseValue fuel r2 of
                           None \<Rightarrow> None
                         | Some (v, r3) \<Rightarrow>
                             (case skipWs r3 of
                                [] \<Rightarrow> None
                              | e # r4 \<Rightarrow>
                                  if e = CHR '','' then
                                    map_option (\<lambda>(kvs, rest). ((k, v) # kvs, rest))
                                      (parseMembers fuel r4)
                                  else if e = CHR ''}'' then Some ([(k, v)], r4)
                                  else None))
                      else None))
          else None)"

definition jsonParse :: "string \<Rightarrow> json option" where
  \<comment> \<open>\<open>None\<close> is the \<open>SyntaxError\<close>\<close>
  "jsonParse s =
     (case parseValue (length s + 1) s of
        None \<Rightarrow> None
      | Some (v, rest) \<Rightarrow> if skipWs rest = [] then Some v else None)"

definition JSON_parse :: "string \<Rightarrow> js_error + json" where
  \<comment> \<open>the text of the engine's message is not modelled\<close>
  "JSON_parse s = (case jsonParse s of None \<Rightarrow> Inl (SyntaxError ''Unexpected token'') | Some v \<Rightarrow> Inr v)"

section \<open>Chat completion client: the streaming loop (llm)\<close>

text \<open>
  \<open>streamChatCompletion\<close> is modelled from the point where the response body is read:
  the input is the list of decoded network chunks, the output the list of yielded
  deltas. The declared \<open>StreamChunk\<close> interface gives \<open>delta.content\<close> the type
  string; a truthy content of another type is reported as \<open>NonStringContent\<close>, outside
  the model.
\<close>

datatype stream_error = NonStringContent

fun splitLines :: "string \<Rightarrow> string list" where
  \<comment> \<open>\<open>s.split("\n")\<close>\<close>
  "splitLines [] = [[]]"
| "splitLines (c # cs) =
     (if c = CHR 0x0A then [] # splitLines cs
      else (case splitLines cs of l # ls \<Rightarrow> (c # l) # ls | [] \<Rightarrow> [[c]]))"

definition slice :: "string \<Rightarrow> nat \<Rightarrow> nat \<Rightarrow> string" where
  \<comment> \<open>\<open>s.slice(a, b)\<close> for indices within the string\<close>
  "slice s a b = take (b - a) (drop a s)"

definition indexValue :: "nat option \<Rightarrow> int" where
  \<comment> \<open>the number \<open>indexOf\<close> and \<open>lastIndexOf\<close> return\<close>
  "indexValue r = (case r of None \<Rightarrow> - 1 | Some i \<Rightarrow> int i)"

fun findMatch :: "matcher \<Rightarrow> string \<Rightarrow> (nat \<times> nat) option" where
  \<comment> \<open>\<open>regex.exec\<close>: index and length of the leftmost match\<close>
  "findMatch m [] = (case m [] of Some (n, r) \<Rightarrow> Some (0, n) | None \<Rightarrow> None)"
| "findMatch m (c # cs) =
     (case m (c # cs) of
        Some (n, r) \<Rightarrow> Some (0, n)
      | None \<Rightarrow> map_option (\<lambda>(i, n). (Suc i, n)) (findMatch m cs))"

lemma findMatch_thinkTag_pos:
  "findMatch thinkTag s = Some (i, n) \<Longrightarrow> 0 < n \<and> i < length s"
proof (induction s arbitrary: i)
  case Nil
  then show ?case by (simp add: thinkTag_def startsWith_def)
next
  case (Cons c cs)
  show ?case
  proof (cases "thinkTag (c # cs)")
    case None
    then obtain j where "findMatch thinkTag cs = Some (j, n)" "i = Suc j"
      using Cons.prems by auto
    then show ?thesis using Cons.IH by auto
  next
    case (Some a)
    then show ?thesis using Cons.prems
      by (auto simp: thinkTag_def split: if_splits option.splits)
  qed
qed

function execLoop :: "string \<Rightarrow> nat \<Rightarrow> string \<Rightarrow> string \<times> nat" where
  \<comment> \<open>the \<open>while ((match = thinkRegex.exec(contentBuffer)) !== null)\<close> loop: the text
      before each complete span is appended, \<open>lastIndex\<close> moves past the span\<close>
  "execLoop contentBuffer lastIndex cleanContent =
     (case findMatch thinkTag (drop lastIndex contentBuffer) of
        None \<Rightarrow> (cleanContent, lastIndex)
      | Some (i, n) \<Rightarrow>
          execLoop contentBuffer (lastIndex + i + n)
            (cleanContent @ slice contentBuffer lastIndex (lastIndex + i)))"
  by pat_completeness auto
termination
  apply (relation "measure (\<lambda>(b, l, c). length b - l)")
   apply simp
  apply (auto dest!: findMatch_thinkTag_pos)
  done

declare execLoop.simps [simp del]

definition processContent :: "string \<Rightarrow> string \<Rightarrow> string option \<times> string" where
  \<comment> \<open>one truthy \<open>content\<close>: the yielded delta, if any, and the new \<open>contentBuffer\<close>\<close>
  "processContent contentBuffer0 content =
     (let contentBuffer = contentBuffer0 @ content;
          (cleanContent0, lastIndex) = execLoop contentBuffer 0 [];
          incompleteThinkStart = lastIndexOf ''<think>'' contentBuffer;
          incompleteThinkEnd = lastIndexOf ''</think>'' contentBuffer;
          (cleanContent, contentBuffer') =
            (if indexValue incompleteThinkStart > indexValue incompleteThinkEnd then
               (cleanContent0 @ slice contentBuffer lastIndex (the incompleteThinkStart),
                drop (the incompleteThinkStart) contentBuffer)
             else (cleanContent0 @ drop lastIndex contentBuffer, []))
      in (if trim cleanContent \<noteq> [] then Some cleanContent else None, contentBuffer'))"

definition finalFlush :: "string \<Rightarrow> string list" where
  \<comment> \<open>what is yielded on \<open>[DONE]\<close>\<close>
  "finalFlush contentBuffer =
     (if trim contentBuffer \<noteq> [] then
        (let finalClean = replaceAll thinkTag contentBuffer in
         if trim finalClean \<noteq> [] then [finalClean] else [])
      else [])"

definition element0 :: "json \<Rightarrow> json option" where
  \<comment> \<open>\<open>value[0]\<close> on a value that is not \<open>null\<close>\<close>
  "element0 v =
     (case v of
        JArr xs \<Rightarrow> (case xs of [] \<Rightarrow> None | x # _ \<Rightarrow> Some x)
      | JStr s \<Rightarrow> (case s of [] \<Rightarrow> None | c # _ \<Rightarrow> Some (JStr [c]))
      | JObj kvs \<Rightarrow> map_of kvs ''0''
      | _ \<Rightarrow> None)"

definition optProp :: "json option \<Rightarrow> string \<Rightarrow> json option" where
  \<comment> \<open>\<open>value?.name\<close> for a name that is neither an index nor \<open>length\<close>\<close>
  "optProp v name = (case v of Some (JObj kvs) \<Rightarrow> map_of kvs name | _ \<Rightarrow> None)"

definition deltaContent :: "json \<Rightarrow> js_error + json option" where
  \<comment> \<open>\<open>parsed.choices[0]?.delta?.content\<close>\<close>
  "deltaContent parsed =
     thenE (getProp parsed ''choices'') (\<lambda>choices.
       case choices of
         None \<Rightarrow> Inl (TypeError ''Cannot read properties of undefined (reading 0)'')
       | Some JNull \<Rightarrow> Inl (TypeError ''Cannot read properties of null (reading 0)'')
       | Some c \<Rightarrow> Inr (optProp (optProp (element0 c) ''delta'') ''content''))"

datatype line_state = Continue string | Finished

fun processLines :: "string list \<Rightarrow> string \<Rightarrow> stream_error + string list \<times> line_state" where
  \<comment> \<open>the \<open>for (const line of lines)\<close> loop: the deltas it yields, and whether
      \<open>[DONE]\<close> ended the generator or the loop left a \<open>contentBuffer\<close>\<close>
  "processLines [] contentBuffer = Inr ([], Continue contentBuffer)"
| "processLines (line # rest) contentBuffer =
     (if startsWith ''data: '' line then
        (let data = drop 6 line in
         if data = ''[DONE]'' then Inr (finalFlush contentBuffer, Finished)
         else
           (case thenE (JSON_parse data) deltaContent of
              Inl e \<Rightarrow> processLines rest contentBuffer
            | Inr content \<Rightarrow>
                (if truthy content then
                   (case content of
                      Some (JStr c) \<Rightarrow>
                        (let (delta, contentBuffer') = processContent contentBuffer c in
                         thenE (processLines rest contentBuffer') (\<lambda>(deltas, st).
                           Inr ((case delta of Some d \<Rightarrow> [d] | None \<Rightarrow> []) @ deltas, st)))
                    | _ \<Rightarrow> Inl NonStringContent)
                 else processLines rest contentBuffer)))
      else processLines rest contentBuffer)"

fun streamLoop :: "string list \<Rightarrow> string \<Rightarrow> string \<Rightarrow> stream_error + string list" where
  \<comment> \<open>the \<open>while (true)\<close> loop over \<open>reader.read()\<close>; the chunk list ends when the
      reader reports \<open>done\<close>\<close>
  "streamLoop [] buffer contentBuffer = Inr []"
| "streamLoop (chunk # chunks) buffer contentBuffer =
     (let lines = splitLines (buffer @ chunk);
          buffer' = last lines
      in thenE (processLines (butlast lines) contentBuffer) (\<lambda>(deltas, st).
           case st of
             Finished \<Rightarrow> Inr deltas
           | Continue contentBuffer' \<Rightarrow>
               thenE (streamLoop chunks buffer' contentBuffer') (\<lambda>later. Inr (deltas @ later))))"

definition streamChatCompletion :: "string list \<Rightarrow> stream_error + string list" where
  "streamChatCompletion chunks = streamLoop chunks [] []"

section \<open>Web search client (search)\<close>

record SearchResult =
  title :: string
  url :: string
  content :: string
  score :: rat

record SearchResponse =
  query :: string
  results :: "SearchResult list"
  images :: "(string \<times> string) list"
  answer :: "string option"

definition notConfigured :: js_error where
  "notConfigured = Error ''TAVILY_API_KEY is not configured''"

definition getTavilyClient :: "string option \<Rightarrow> js_error + string" where
  \<comment> \<open>the client stands for the key it was created with; the module caches it only
      after a successful creation, so the cached path returns the same client\<close>
  "getTavilyClient TAVILY_API_KEY =
     (case TAVILY_API_KEY of
        None \<Rightarrow> Inl notConfigured
      | Some key \<Rightarrow> if key = [] then Inl notConfigured else Inr key)"

definition searchWeb ::
    "string option \<Rightarrow> (string \<Rightarrow> string \<Rightarrow> js_error + SearchResponse) \<Rightarrow> string
      \<Rightarrow> js_error + SearchResponse" where
  \<comment> \<open>\<open>tavily client query\<close> is the external search call with its result mapped\<close>
  "searchWeb TAVILY_API_KEY tavily q =
     thenE (getTavilyClient TAVILY_API_KEY) (\<lambda>client. tavily client q)"

definition generateSearchQueries ::
    "(string \<Rightarrow> string) \<Rightarrow> string \<Rightarrow> string \<Rightarrow> nat \<Rightarrow> string list" where
  \<comment> \<open>\<open>extractMainTopic\<close>, a total string function of the content, is a parameter;
      \<open>contentText\<close> is the source's \<open>content\<close>\<close>
  "generateSearchQueries extractMainTopic contentText instructions maxQueries =
     (let instructionsLower = toLowerCase instructions;
          q1 = (if includesStr ''statistics'' instructionsLower \<or> includesStr ''data'' instructionsLower
                then [extractMainTopic contentText @ '' latest statistics data 2024''] else []);
          q2 = (if includesStr ''examples'' instructionsLower \<or> includesStr ''case studies'' instructionsLower
                then [extractMainTopic contentText @ '' real world examples case studies''] else []);
          q3 = (if includesStr ''trends'' instructionsLower \<or> includesStr ''future'' instructionsLower
                then [extractMainTopic contentText @ '' future trends predictions 2024''] else [])
      in take maxQueries (q1 @ q2 @ q3 @ [extractMainTopic contentText @ '' recent developments news'']))"

section \<open>Generation orchestrator (podcast-generator)\<close>

record PodcastSection =
  sectionId :: string
  title :: string
  description :: string
  duration :: string
  keyPoints :: "string list"
  script :: "string option"
  searchContext :: "SearchResponse list option"

record Overview =
  title :: string
  description :: string
  totalDuration :: string
  targetAudience :: string
  tone :: string

record FinalThoughts =
  title :: string
  description :: string
  duration :: string
  keyTakeaways :: "string list"
  script :: "string option"

record PodcastOutline =
  overview :: Overview
  sections :: "PodcastSection list"
  finalThoughts :: FinalThoughts

datatype stage = Outline | Search | Script | Combining | Finalizing

record GenerationProgress =
  \<comment> \<open>the \<open>step\<close> text is for display only and is left out\<close>
  stage :: stage
  progress :: int
  currentSection :: "string option"
  result :: "string option"
  error :: "string option"

definition progressEvent :: "stage \<Rightarrow> int \<Rightarrow> GenerationProgress" where
  "progressEvent s p =
     \<lparr>stage = s, progress = p, currentSection = None, result = None, error = None\<rparr>"

text \<open>
  Progress reaches an observer on two channels: the callback passed to the constructor
  (\<open>updateProgress\<close>) and the values the generator yields. A run is the list of emitted
  events in order of emission together with its outcome.
\<close>

datatype emitted = Callback GenerationProgress | Yielded GenerationProgress

type_synonym 'a run = "emitted list \<times> (js_error + 'a)"

record environment =
  onProgress :: bool \<comment> \<open>a callback was passed to the constructor\<close>
  outlineAttempt :: "nat \<Rightarrow> js_error + PodcastOutline"
    \<comment> \<open>the outcome of the request, parse and checks of the given attempt\<close>
  extractMainTopic :: "string \<Rightarrow> string"
  TAVILY_API_KEY :: "string option"
  tavily :: "string \<Rightarrow> string \<Rightarrow> js_error + SearchResponse"
  sectionStream :: "PodcastSection \<Rightarrow> string list \<times> js_error option"
    \<comment> \<open>the deltas \<open>streamChatCompletion\<close> yields for a section, and the error it
        then throws, if any\<close>
  structuredCompletion :: "PodcastOutline \<Rightarrow> js_error + string"
  fallbackCompletion :: "PodcastOutline \<Rightarrow> js_error + string"
  jsonParser :: "string \<Rightarrow> js_error + json"
  stringify :: "json \<Rightarrow> string"
  stringifyOutline :: "PodcastOutline \<Rightarrow> string"

definition roundJS :: "rat \<Rightarrow> int" where
  \<comment> \<open>\<open>Math.round\<close>\<close>
  "roundJS x = \<lfloor>x + 1 / 2\<rfloor>"

definition updateProgress :: "environment \<Rightarrow> GenerationProgress \<Rightarrow> emitted list" where
  "updateProgress env p = (if onProgress env then [Callback p] else [])"

definition andThen :: "'a run \<Rightarrow> ('a \<Rightarrow> 'b run) \<Rightarrow> 'b run" where
  \<comment> \<open>sequencing: an error ends the run, the events so far are kept\<close>
  "andThen r f =
     (case r of
        (es, Inl e) \<Rightarrow> (es, Inl e)
      | (es, Inr v) \<Rightarrow> (case f v of (es', r') \<Rightarrow> (es @ es', r')))"

definition emit :: "emitted list \<Rightarrow> unit run" where
  "emit es = (es, Inr ())"

definition orElse :: "string option \<Rightarrow> string \<Rightarrow> string" where
  \<comment> \<open>\<open>a || b\<close> on an optional string\<close>
  "orElse a b = (case a of Some s \<Rightarrow> if s = [] then b else s | None \<Rightarrow> b)"

fun tryAttempts ::
    "environment \<Rightarrow> nat list \<Rightarrow> js_error option \<Rightarrow> emitted list \<times> (js_error option + PodcastOutline)" where
  \<comment> \<open>the \<open>for (let attempt = 1; attempt <= 3; attempt++)\<close> loop\<close>
  "tryAttempts env [] lastError = ([], Inl lastError)"
| "tryAttempts env (attempt # rest) lastError =
     (let started = updateProgress env (progressEvent Outline (10 + (int attempt - 1) * 5)) in
      case outlineAttempt env attempt of
        Inr outline \<Rightarrow> (started @ updateProgress env (progressEvent Outline 30), Inr outline)
      | Inl e \<Rightarrow>
          (case tryAttempts env rest (Some e) of (es, r) \<Rightarrow> (started @ es, r)))"

definition generatePodcastOutline :: "environment \<Rightarrow> PodcastOutline run" where
  "generatePodcastOutline env =
     (let first = updateProgress env (progressEvent Outline 10) in
      case tryAttempts env [1, 2, 3] None of
        (es, Inr outline) \<Rightarrow> (first @ es, Inr outline)
      | (es, Inl lastError) \<Rightarrow>
          (first @ es
           @ updateProgress env
               ((progressEvent Outline 30)
                  \<lparr>error := Some (orElse (map_option message lastError)
                                          ''Failed to generate valid outline'')\<rparr>),
           Inl (Error (''Failed to generate valid podcast outline after 3 attempts. Last error: ''
                       @ (case lastError of Some e \<Rightarrow> message e | None \<Rightarrow> ''undefined'')))))"

definition elementAt :: "string list \<Rightarrow> nat \<Rightarrow> string option" where
  \<comment> \<open>\<open>xs[i]\<close>\<close>
  "elementAt xs i = (if i < length xs then Some (xs ! i) else None)"

fun collectSearches ::
    "environment \<Rightarrow> string list \<Rightarrow> SearchResponse list" where
  \<comment> \<open>the inner loop: a failed search is logged and skipped\<close>
  "collectSearches env [] = []"
| "collectSearches env (q # qs) =
     (case searchWeb (TAVILY_API_KEY env) (tavily env) q of
        Inr r \<Rightarrow> r # collectSearches env qs
      | Inl searchError \<Rightarrow> collectSearches env qs)"

fun enrichSections ::
    "environment \<Rightarrow> string list \<Rightarrow> nat \<Rightarrow> nat \<Rightarrow> PodcastSection list
      \<Rightarrow> emitted list \<times> PodcastSection list" where
  \<comment> \<open>the loop over \<open>outline.sections\<close>; \<open>n\<close> is their number, \<open>i\<close> the index\<close>
  "enrichSections env searchQueries n i [] = ([], [])"
| "enrichSections env searchQueries n i (section # rest) =
     (let ev = updateProgress env
                 ((progressEvent Search (roundJS (35 + (of_nat i / of_nat n) * 20)))
                    \<lparr>currentSection := Some (PodcastSection.title section)\<rparr>);
          sectionQueries =
            [PodcastSection.title section @ '' '' @ orElse (elementAt searchQueries 0) [],
             orElse (if searchQueries = [] then None
                     else elementAt searchQueries (i mod length searchQueries))
                    (PodcastSection.title section)];
          searchResults = collectSearches env (take 2 sectionQueries);
          enriched = section\<lparr>searchContext := Some searchResults\<rparr>
      in case enrichSections env searchQueries n (i + 1) rest of
           (es, others) \<Rightarrow> (ev @ es, enriched # others))"

definition enrichWithWebSearch ::
    "environment \<Rightarrow> PodcastOutline \<Rightarrow> string \<Rightarrow> string \<Rightarrow> PodcastOutline run" where
  \<comment> \<open>nothing in the \<open>try\<close> block can raise on an outline of the declared type, so its
      \<open>catch\<close> branch, which returns the outline unchanged, has no counterpart here\<close>
  "enrichWithWebSearch env outline contentText instructions =
     (let first = updateProgress env (progressEvent Search 35);
          searchQueries = generateSearchQueries (extractMainTopic env) contentText instructions 3;
          (es, enrichedSections) =
            enrichSections env searchQueries (length (sections outline)) 0 (sections outline)
      in (first @ es @ updateProgress env (progressEvent Search 55),
          Inr (outline\<lparr>sections := enrichedSections\<rparr>)))"

fun streamScript ::
    "(string \<Rightarrow> emitted list) \<Rightarrow> string list \<Rightarrow> string \<Rightarrow> emitted list \<times> string" where
  \<comment> \<open>\<open>for await (const chunk of stream) { fullScript += chunk; onProgress(fullScript) }\<close>\<close>
  "streamScript onChunk [] fullScript = ([], fullScript)"
| "streamScript onChunk (chunk # chunks) fullScript =
     (case streamScript onChunk chunks (fullScript @ chunk) of
        (es, final) \<Rightarrow> (onChunk (fullScript @ chunk) @ es, final))"

definition generateSectionScript ::
    "environment \<Rightarrow> PodcastSection \<Rightarrow> (string \<Rightarrow> emitted list) \<Rightarrow> string run" where
  "generateSectionScript env section onChunk =
     (case sectionStream env section of
        (chunks, failure) \<Rightarrow>
          (case streamScript onChunk chunks [] of
             (es, fullScript) \<Rightarrow>
               (es, case failure of Some e \<Rightarrow> Inl e | None \<Rightarrow> Inr fullScript)))"

definition createFinalScript :: "environment \<Rightarrow> PodcastOutline \<Rightarrow> string run" where
  \<comment> \<open>the prompt and the token ceiling derived from the scripts' length go into the
      two completion requests and do not reach the emitted events\<close>
  "createFinalScript env outline =
     andThen (emit [Yielded (progressEvent Finalizing 88),
                    Yielded (progressEvent Finalizing 90),
                    Yielded (progressEvent Finalizing 92)]) (\<lambda>_.
     andThen (case structuredCompletion env outline of
                Inr finalResponse \<Rightarrow> ([Yielded (progressEvent Finalizing 96)], Inr finalResponse)
              | Inl e \<Rightarrow>
                  andThen (emit [Yielded (progressEvent Finalizing 94)]) (\<lambda>_.
                  andThen ([], fallbackCompletion env outline) (\<lambda>finalResponse.
                    ([Yielded (progressEvent Finalizing 96)], Inr finalResponse)))) (\<lambda>finalResponse.
     andThen (emit [Yielded (progressEvent Finalizing 98)]) (\<lambda>_.
     andThen ([], parseJSONFromResponse (jsonParser env) finalResponse True) (\<lambda>parsed.
       ([Yielded ((progressEvent Finalizing 99)\<lparr>result := Some (stringify env parsed)\<rparr>)],
        Inr (stringify env parsed))))))"

fun scriptSections ::
    "environment \<Rightarrow> nat \<Rightarrow> nat \<Rightarrow> PodcastSection list \<Rightarrow> PodcastSection list run" where
  \<comment> \<open>the loop over \<open>enrichedOutline.sections\<close>; \<open>n\<close> is their number, \<open>i\<close> the index\<close>
  "scriptSections env n i [] = ([], Inr [])"
| "scriptSections env n i (section # rest) =
     andThen (emit [Yielded ((progressEvent Script (roundJS (50 + (of_nat i / of_nat n) * 25)))
                               \<lparr>currentSection := Some (PodcastSection.title section)\<rparr>)]) (\<lambda>_.
     andThen (generateSectionScript env section (\<lambda>partialScript.
                updateProgress env
                  ((progressEvent Script (roundJS (50 + (of_nat i / of_nat n) * 25)))
                     \<lparr>currentSection := Some (PodcastSection.title section),
                      result := Some partialScript\<rparr>))) (\<lambda>sectionScript.
     andThen (emit [Yielded ((progressEvent Script (roundJS (50 + (of_nat (i + 1) / of_nat n) * 25)))
                               \<lparr>currentSection := Some (PodcastSection.title section),
                                result := Some sectionScript\<rparr>)]) (\<lambda>_.
     andThen (scriptSections env n (i + 1) rest) (\<lambda>others.
       ([], Inr (section\<lparr>PodcastSection.script := Some sectionScript\<rparr> # others))))))"

definition yieldedOf :: "emitted list \<Rightarrow> GenerationProgress list" where
  "yieldedOf es = concat (map (\<lambda>e. case e of Yielded p \<Rightarrow> [p] | Callback p \<Rightarrow> []) es)"

definition lastResult :: "GenerationProgress list \<Rightarrow> string" where
  \<comment> \<open>\<open>finalScript = progress.result || finalScript\<close> over the yielded events\<close>
  "lastResult ps = foldl (\<lambda>finalScript p. orElse (result p) finalScript) [] ps"

definition pipeline ::
    "environment \<Rightarrow> string \<Rightarrow> string \<Rightarrow> PodcastOutline run" where
  \<comment> \<open>the body of the \<open>try\<close> block of \<open>generatePodcastScript\<close>\<close>
  "pipeline env contentText instructions =
     andThen (generatePodcastOutline env) (\<lambda>outline.
     andThen (emit [Yielded ((progressEvent Outline 25)
                               \<lparr>result := Some (stringifyOutline env outline)\<rparr>)]) (\<lambda>_.
     andThen (enrichWithWebSearch env outline contentText instructions) (\<lambda>enrichedOutline.
     andThen (emit [Yielded (progressEvent Search 50)]) (\<lambda>_.
     andThen (scriptSections env (length (sections enrichedOutline)) 0
                (sections enrichedOutline)) (\<lambda>sectionsWithScripts.
     andThen (emit [Yielded (progressEvent Script 75)]) (\<lambda>_.
     andThen (generateSectionScript env
                \<lparr>sectionId = ''final_thoughts'',
                 PodcastSection.title = FinalThoughts.title (finalThoughts enrichedOutline),
                 PodcastSection.description = FinalThoughts.description (finalThoughts enrichedOutline),
                 PodcastSection.duration = FinalThoughts.duration (finalThoughts enrichedOutline),
                 keyPoints = keyTakeaways (finalThoughts enrichedOutline),
                 PodcastSection.script = None, searchContext = None\<rparr>
                (\<lambda>partialScript.
                   updateProgress env
                     ((progressEvent Script 75)
                        \<lparr>currentSection := Some ''final_thoughts'',
                         result := Some partialScript\<rparr>))) (\<lambda>finalThoughtsScript.
     andThen (emit [Yielded (progressEvent Combining 85)]) (\<lambda>_.
     let finalOutline = enrichedOutline
           \<lparr>sections := sectionsWithScripts,
            finalThoughts := (finalThoughts enrichedOutline)
               \<lparr>FinalThoughts.script := Some finalThoughtsScript\<rparr>\<rparr>
     in
     andThen (emit [Yielded (progressEvent Finalizing 87)]) (\<lambda>_.
     case createFinalScript env finalOutline of
       (es, r) \<Rightarrow>
         andThen (es, r) (\<lambda>_.
           ([Yielded ((progressEvent Finalizing 100)
                        \<lparr>result := Some (lastResult (yieldedOf es))\<rparr>)],
            Inr finalOutline)))))))))))"

definition generatePodcastScript ::
    "environment \<Rightarrow> string \<Rightarrow> string \<Rightarrow> PodcastOutline run" where
  \<comment> \<open>the \<open>catch\<close> block yields one event carrying the error and rethrows\<close>
  "generatePodcastScript env contentText instructions =
     (case pipeline env contentText instructions of
        (es, Inr finalOutline) \<Rightarrow> (es, Inr finalOutline)
      | (es, Inl e) \<Rightarrow>
          (es @ [Yielded ((progressEvent Finalizing 100)\<lparr>error := Some (message e)\<rparr>)],
           Inl e))"

section \<open>Request handler of the generation route\<close>

datatype sse_event =
    ProgressEvent GenerationProgress
  | CompleteEvent string GenerationProgress
  | DoneEvent
  | ErrorEvent string

record channel =
  sent :: "sse_event list" \<comment> \<open>the events enqueued so far\<close>
  attempts :: nat \<comment> \<open>how many times \<open>controller.enqueue\<close> was called\<close>
  isControllerClosed :: bool
  isCancelled :: bool \<comment> \<open>initialised to \<open>false\<close> and never assigned\<close>

definition sendEvent :: "(nat \<Rightarrow> bool) \<Rightarrow> channel \<Rightarrow> sse_event \<Rightarrow> channel \<times> bool" where
  \<comment> \<open>\<open>enqueueOk k\<close> tells whether the \<open>k\<close>-th call of \<open>controller.enqueue\<close>
      succeeds; it throws once the client has gone\<close>
  "sendEvent enqueueOk ch ev =
     (if isControllerClosed ch \<or> isCancelled ch then (ch, False)
      else if enqueueOk (attempts ch) then
        (ch\<lparr>sent := sent ch @ [ev], attempts := attempts ch + 1\<rparr>, True)
      else (ch\<lparr>attempts := attempts ch + 1, isControllerClosed := True\<rparr>, False))"

definition closeController :: "channel \<Rightarrow> channel" where
  "closeController ch = (if \<not> isControllerClosed ch then ch\<lparr>isControllerClosed := True\<rparr> else ch)"

fun forAwait :: "(nat \<Rightarrow> bool) \<Rightarrow> string option \<Rightarrow> GenerationProgress list \<Rightarrow> channel \<Rightarrow> channel \<times> bool" where
  \<comment> \<open>the \<open>for await\<close> loop over the generator's values; the flag tells whether the
      loop was left by \<open>break\<close>\<close>
  "forAwait enqueueOk generationId [] ch = (ch, False)"
| "forAwait enqueueOk generationId (p # ps) ch =
     (if isControllerClosed ch \<or> isCancelled ch then (ch, True)
      else
        (case sendEvent enqueueOk ch (ProgressEvent p) of
           (ch1, False) \<Rightarrow> (ch1, True)
         | (ch1, True) \<Rightarrow>
             (if progress p = 100 \<and> orElse (result p) [] \<noteq> [] then
                (case sendEvent enqueueOk ch1 (CompleteEvent (the (result p)) p) of
                   (ch2, False) \<Rightarrow> (ch2, True)
                 | (ch2, True) \<Rightarrow> forAwait enqueueOk generationId ps ch2)
              else forAwait enqueueOk generationId ps ch1)))"

definition sendDone :: "(nat \<Rightarrow> bool) \<Rightarrow> channel \<Rightarrow> channel" where
  "sendDone enqueueOk ch =
     (if \<not> isControllerClosed ch \<and> \<not> isCancelled ch then fst (sendEvent enqueueOk ch DoneEvent)
      else ch)"

definition handleStream ::
    "(nat \<Rightarrow> bool) \<Rightarrow> string option \<Rightarrow> GenerationProgress list \<times> (js_error + 'a) \<Rightarrow> channel" where
  \<comment> \<open>the \<open>start\<close> callback of the response stream, run on what the generator yields
      and how it ends\<close>
  "handleStream enqueueOk generationId gen =
     (let ch0 = \<lparr>sent = [], attempts = 0, isControllerClosed = False, isCancelled = False\<rparr> in
      case sendEvent enqueueOk ch0 (ProgressEvent (progressEvent Outline 0)) of
        (ch1, False) \<Rightarrow> closeController ch1
      | (ch1, True) \<Rightarrow>
          (case forAwait enqueueOk generationId (fst gen) ch1 of
             (ch2, True) \<Rightarrow> closeController (sendDone enqueueOk ch2)
           | (ch2, False) \<Rightarrow>
               (case snd gen of
                  Inr v \<Rightarrow> closeController (sendDone enqueueOk ch2)
                | Inl e \<Rightarrow>
                    closeController
                      (if \<not> isControllerClosed ch2 \<and> \<not> isCancelled ch2
                       then fst (sendEvent enqueueOk ch2 (ErrorEvent (message e)))
                       else ch2))))"

definition POST :: "(nat \<Rightarrow> bool) \<Rightarrow> string option \<Rightarrow> environment \<Rightarrow> string \<Rightarrow> string \<Rightarrow> channel" where
  \<comment> \<open>the handler constructs the generator without a callback\<close>
  "POST enqueueOk generationId env contentText finalInstructions =
     (case generatePodcastScript (env\<lparr>onProgress := False\<rparr>) contentText finalInstructions of
        (es, outcome) \<Rightarrow> handleStream enqueueOk generationId (yieldedOf es, outcome))"

section \<open>Audio combiner (combine-audio route)\<close>

text \<open>
  A Node \<open>Buffer\<close> is a list of bytes. The accessors \<open>readUInt16LE\<close>,
  \<open>readUInt32LE\<close>, \<open>writeUInt16LE\<close> and \<open>writeUInt32LE\<close> raise a
  \<open>RangeError\<close> when the offset leaves the buffer or the value does not fit the
  field; both are branches of the model. JavaScript numbers are modelled as exact
  rationals: every quantity below is a quotient of integers below \<open>2^53\<close> by 8, or is
  compared only with a bound that such a quotient cannot be rounded across.
\<close>

type_synonym byte = "8 word"
type_synonym buffer = "byte list"

datatype wav_error = NoAudioBuffers | RangeError

fun le_value :: "byte list \<Rightarrow> nat" where
  "le_value [] = 0"
| "le_value (b # bs) = unat b + 256 * le_value bs"

fun le_bytes :: "nat \<Rightarrow> nat \<Rightarrow> byte list" where
  "le_bytes 0 v = []"
| "le_bytes (Suc n) v = of_nat (v mod 256) # le_bytes n (v div 256)"

definition readUIntLE :: "nat \<Rightarrow> buffer \<Rightarrow> nat \<Rightarrow> wav_error + nat" where
  "readUIntLE n buf off =
     (if off + n \<le> length buf then Inr (le_value (take n (drop off buf)))
      else Inl RangeError)"

definition readUInt16LE :: "buffer \<Rightarrow> nat \<Rightarrow> wav_error + nat" where
  "readUInt16LE = readUIntLE 2"

definition readUInt32LE :: "buffer \<Rightarrow> nat \<Rightarrow> wav_error + nat" where
  "readUInt32LE = readUIntLE 4"

definition writeUIntLE :: "nat \<Rightarrow> rat \<Rightarrow> wav_error + byte list" where
  \<comment> \<open>the bytes a write of \<open>value\<close> puts into an \<open>n\<close>-byte field: the range check
      is on the number itself, the stored bytes are those of its integer part\<close>
  "writeUIntLE n v =
     (if v < 0 \<or> v > of_nat (256 ^ n - 1) then Inl RangeError
      else Inr (le_bytes n (nat \<lfloor>v\<rfloor>)))"

definition writeUInt16LE :: "rat \<Rightarrow> wav_error + byte list" where
  "writeUInt16LE = writeUIntLE 2"

definition writeUInt32LE :: "rat \<Rightarrow> wav_error + byte list" where
  "writeUInt32LE = writeUIntLE 4"

definition ascii :: "string \<Rightarrow> byte list" where
  "ascii s = map (\<lambda>c. of_nat (of_char c)) s"

fun extractChunks :: "buffer list \<Rightarrow> wav_error + buffer list" where
  \<comment> \<open>the first loop: \<open>dataStart = 44\<close>, \<open>dataSize = readUInt32LE(40)\<close>,
      \<open>subarray(dataStart, dataStart + dataSize)\<close> (which clamps to the buffer)\<close>
  "extractChunks [] = Inr []"
| "extractChunks (buf # rest) =
     thenE (readUInt32LE buf 40) (\<lambda>dataSize.
     thenE (extractChunks rest) (\<lambda>chunks.
       Inr (take dataSize (drop 44 buf) # chunks)))"

definition combineWavBuffers :: "buffer list \<Rightarrow> wav_error + buffer" where
  "combineWavBuffers buffers =
     (case buffers of
        [] \<Rightarrow> Inl NoAudioBuffers
      | firstBuffer # _ \<Rightarrow>
          thenE (readUInt32LE firstBuffer 24) (\<lambda>sampleRate.
          thenE (readUInt16LE firstBuffer 34) (\<lambda>bitsPerSample.
          thenE (readUInt16LE firstBuffer 22) (\<lambda>numChannels.
          let bytesPerSample = (of_nat bitsPerSample :: rat) / 8;
              blockAlign = of_nat numChannels * bytesPerSample
          in
          thenE (extractChunks buffers) (\<lambda>audioDataChunks.
          let totalDataSize = sum_list (map length audioDataChunks);
              headerSize = (44 :: nat);
              totalFileSize = (int headerSize + int totalDataSize - 8)
          in
          thenE (writeUInt32LE (of_int totalFileSize)) (\<lambda>riffSize.
          thenE (writeUInt32LE 16) (\<lambda>fmtSize.
          thenE (writeUInt16LE 1) (\<lambda>audioFormat.
          thenE (writeUInt16LE (of_nat numChannels)) (\<lambda>channels.
          thenE (writeUInt32LE (of_nat sampleRate)) (\<lambda>rate.
          thenE (writeUInt32LE (of_nat sampleRate * blockAlign)) (\<lambda>byteRate.
          thenE (writeUInt16LE blockAlign) (\<lambda>align.
          thenE (writeUInt16LE (of_nat bitsPerSample)) (\<lambda>bits.
          thenE (writeUInt32LE (of_nat totalDataSize)) (\<lambda>dataSize.
            Inr (ascii ''RIFF'' @ riffSize @ ascii ''WAVE''
                 @ ascii ''fmt '' @ fmtSize @ audioFormat @ channels @ rate
                 @ byteRate @ align @ bits
                 @ ascii ''data'' @ dataSize
                 @ concat audioDataChunks)))))))))))))))"

definition estimateAudioDuration :: "buffer \<Rightarrow> int" where
  \<comment> \<open>\<open>Math.round((buffer.length - 44) / 88200)\<close>; \<open>Math.round\<close> rounds a half up\<close>
  "estimateAudioDuration buf =
     (let dataSize = int (length buf) - 44;
          estimatedSeconds = (of_int dataSize :: rat) / 88200
      in \<lfloor>estimatedSeconds + 1 / 2\<rfloor>)"


subsection \<open>Header fields and test data used to state the properties\<close>

definition declaredDataSize :: "buffer \<Rightarrow> nat" where
  \<comment> \<open>the data-chunk size a canonical header declares at offset 40\<close>
  "declaredDataSize buf = le_value (take 4 (drop 40 buf))"

definition payload :: "buffer \<Rightarrow> buffer" where
  \<comment> \<open>the declared number of bytes after the 44-byte header\<close>
  "payload buf = take (declaredDataSize buf) (drop 44 buf)"

definition sampleRateOf :: "buffer \<Rightarrow> nat" where
  "sampleRateOf buf = le_value (take 4 (drop 24 buf))"

definition bitsPerSampleOf :: "buffer \<Rightarrow> nat" where
  "bitsPerSampleOf buf = le_value (take 2 (drop 34 buf))"

definition numChannelsOf :: "buffer \<Rightarrow> nat" where
  "numChannelsOf buf = le_value (take 2 (drop 22 buf))"

definition riffSizeOf :: "buffer \<Rightarrow> nat" where
  "riffSizeOf buf = le_value (take 4 (drop 4 buf))"

definition sameFormat :: "buffer list \<Rightarrow> bool" where
  "sameFormat buffers =
     list_all (\<lambda>b. sampleRateOf b = sampleRateOf (hd buffers)
                  \<and> bitsPerSampleOf b = bitsPerSampleOf (hd buffers)
                  \<and> numChannelsOf b = numChannelsOf (hd buffers)) buffers"

definition canonicalWav :: "buffer \<Rightarrow> bool" where
  \<comment> \<open>a 44-byte header is present and the declared data size does not exceed the
      bytes that follow it\<close>
  "canonicalWav buf = (44 \<le> length buf \<and> declaredDataSize buf \<le> length buf - 44)"

definition headerFieldsFit :: "buffer list \<Rightarrow> bool" where
  \<comment> \<open>the values the fresh header has to hold fit its fields: block alignment
      \<open>channels * bits / 8\<close> in 16 bits, byte rate in 32 bits, and the RIFF size
      \<open>36 + total payload\<close> in 32 bits (the bounds are scaled by 8 to stay in \<open>nat\<close>)\<close>
  "headerFieldsFit buffers =
     (let b = hd buffers; blockAlign8 = numChannelsOf b * bitsPerSampleOf b
      in blockAlign8 \<le> 8 * 65535
         \<and> sampleRateOf b * blockAlign8 \<le> 8 * 4294967295
         \<and> 36 + sum_list (map (length \<circ> payload) buffers) \<le> 4294967295)"

definition headerDuration :: "buffer \<Rightarrow> int" where
  \<comment> \<open>the estimate as the specification words it:
      \<open>payloadBytes / (sampleRate * bytesPerSample * channels)\<close> from the buffer's own
      header, rounded to the nearest second\<close>
  "headerDuration buf =
     (let payloadBytes = int (length buf) - 44;
          bytesPerSample = (of_nat (bitsPerSampleOf buf) :: rat) / 8
      in \<lfloor>of_int payloadBytes
           / (of_nat (sampleRateOf buf) * bytesPerSample * of_nat (numChannelsOf buf))
         + 1 / 2\<rfloor>)"

definition silence :: "nat \<Rightarrow> buffer" where
  "silence n = replicate n 0"

definition monoClip :: buffer where
  \<comment> \<open>44.1 kHz, 16-bit, mono, two samples\<close>
  "monoClip = [82, 73, 70, 70, 40, 0, 0, 0, 87, 65, 86, 69, 102, 109, 116, 32,
     16, 0, 0, 0, 1, 0, 1, 0, 68, 172, 0, 0, 136, 88, 1, 0, 2, 0, 16, 0,
     100, 97, 116, 97, 4, 0, 0, 0,
     1, 0, 2, 0]"

definition gibHeader :: buffer where
  \<comment> \<open>44.1 kHz, 16-bit, mono, declaring \<open>2^30\<close> bytes of data\<close>
  "gibHeader = [82, 73, 70, 70, 36, 0, 0, 64, 87, 65, 86, 69, 102, 109, 116, 32,
     16, 0, 0, 0, 1, 0, 1, 0, 68, 172, 0, 0, 136, 88, 1, 0, 2, 0, 16, 0,
     100, 97, 116, 97, 0, 0, 0, 64]"

definition gibWav :: buffer where
  "gibWav = gibHeader @ silence 1073741824"

definition stereoHeader :: buffer where
  \<comment> \<open>44.1 kHz, 16-bit, stereo, declaring 176400 bytes of data (one second)\<close>
  "stereoHeader = [82, 73, 70, 70, 52, 177, 2, 0, 87, 65, 86, 69, 102, 109, 116, 32,
     16, 0, 0, 0, 1, 0, 2, 0, 68, 172, 0, 0, 16, 177, 2, 0, 4, 0, 16, 0,
     100, 97, 116, 97, 16, 177, 2, 0]"

definition stereoSecond :: buffer where
  "stereoSecond = stereoHeader @ silence 176400"

definition monoHeader :: buffer where
  \<comment> \<open>44.1 kHz, 16-bit, mono, declaring 132300 bytes of data (one second and a half)\<close>
  "monoHeader = [82, 73, 70, 70, 240, 4, 2, 0, 87, 65, 86, 69, 102, 109, 116, 32,
     16, 0, 0, 0, 1, 0, 1, 0, 68, 172, 0, 0, 136, 88, 1, 0, 2, 0, 16, 0,
     100, 97, 116, 97, 204, 4, 2, 0]"

definition monoSeconds :: buffer where
  "monoSeconds = monoHeader @ silence 132300"

section \<open>Notions used to state the properties\<close>

subsection \<open>Sanitizer and repair pass\<close>

definition narrow :: "string \<Rightarrow> string" where
  \<comment> \<open>the last step of \<open>cleanResponseForJSON\<close>: the text from the first \<open>{\<close> to the
      last \<open>}\<close>\<close>
  "narrow cleaned =
     (case (indexOf ''{'' cleaned, lastIndexOf ''}'' cleaned) of
        (Some a, Some b) \<Rightarrow> if b > a then substring cleaned a (b + 1) else cleaned
      | _ \<Rightarrow> cleaned)"

definition hasThinkSpan :: "string \<Rightarrow> bool" where
  \<comment> \<open>the text holds a well-formed \<open><think>...</think>\<close> span\<close>
  "hasThinkSpan s = (findMatch thinkTag s \<noteq> None)"


definition tooShort :: js_error where
  "tooShort = Error ''Response appears to be empty or too short to contain valid JSON''"

definition splitThink :: string where
  \<comment> \<open>a span whose removal joins the pieces of another open tag\<close>
  "splitThink = ''<th<think>a</think>ink>b</think>''"

definition fencedObject :: string where
  "fencedObject = ''```json
{\"a\": 1}
```''"





subsection \<open>Streaming\<close>

definition unclosedThinkStream :: "string list" where
  \<comment> \<open>one content event whose thinking span is never closed, then the end marker\<close>
  "unclosedThinkStream =
     [''data: {\"choices\":[{\"delta\":{\"content\":\"Hello <think>hmm\"}}]}
data: [DONE]
'']"

definition nestedThinkStream :: "string list" where
  \<comment> \<open>one content event that opens a thinking span twice\<close>
  "nestedThinkStream =
     [''data: {\"choices\":[{\"delta\":{\"content\":\"<think>a<think>b\"}}]}
'']"

subsection \<open>Search and handler\<close>

definition demoSection :: "string \<Rightarrow> string \<Rightarrow> PodcastSection" where
  "demoSection i t =
     \<lparr>sectionId = i, PodcastSection.title = t,
      PodcastSection.description = ''What this part explores in detail'',
      PodcastSection.duration = ''3 minutes'',
      keyPoints = [''First insight of the material'', ''Second insight of the material'',
                   ''Third insight of the material''],
      PodcastSection.script = None, searchContext = None\<rparr>"

definition demoOutline :: PodcastOutline where
  "demoOutline =
     \<lparr>overview = \<lparr>Overview.title = ''Solar power at home'',
                   Overview.description = ''How rooftop panels pay off'',
                   totalDuration = ''12-15 minutes'', targetAudience = ''Home owners'',
                   tone = ''Conversational and engaging''\<rparr>,
      sections = [demoSection ''section_1'' ''Panels and inverters'',
                  demoSection ''section_2'' ''Costs and savings'',
                  demoSection ''section_3'' ''Installation steps''],
      finalThoughts = \<lparr>FinalThoughts.title = ''Where to start'',
                        FinalThoughts.description = ''How to wrap up with impact'',
                        FinalThoughts.duration = ''2-3 minutes'',
                        keyTakeaways = [''Check the roof first'', ''Compare three offers'',
                                        ''Plan for ten years''],
                        FinalThoughts.script = None\<rparr>\<rparr>"

definition offlineEnv :: "bool \<Rightarrow> environment" where
  \<comment> \<open>no search key; every model call succeeds; the flag tells whether a callback was
      passed to the constructor\<close>
  "offlineEnv callback =
     \<lparr>onProgress = callback,
      outlineAttempt = (\<lambda>attempt. Inr demoOutline),
      extractMainTopic = (\<lambda>c. ''solar power home''),
      TAVILY_API_KEY = None,
      tavily = (\<lambda>client q. Inl (Error ''unreachable'')),
      sectionStream = (\<lambda>s. ([''A: Hello. '', ''B: Hi.''], None)),
      structuredCompletion = (\<lambda>outline. Inr ''{\"podcast\": {\"title\": \"Solar\"}}''),
      fallbackCompletion = (\<lambda>outline. Inr ''{\"podcast\": {\"title\": \"Solar\"}}''),
      jsonParser = JSON_parse,
      stringify = (\<lambda>v. ''{}''),
      stringifyOutline = (\<lambda>outline. ''{}'')\<rparr>"

definition attachEmpty :: "PodcastSection \<Rightarrow> PodcastSection" where
  "attachEmpty s = s\<lparr>searchContext := Some []\<rparr>"

definition isStreamEvent :: "sse_event \<Rightarrow> bool" where
  "isStreamEvent ev =
     (case ev of ProgressEvent p \<Rightarrow> True | CompleteEvent s p \<Rightarrow> True | _ \<Rightarrow> False)"

definition finishedRun :: "GenerationProgress list \<times> (js_error + unit)" where
  \<comment> \<open>a generator that yields its final event and returns\<close>
  "finishedRun =
     ([(progressEvent Finalizing 100)\<lparr>result := Some ''{}''\<rparr>], Inr ())"

definition failedRun :: "GenerationProgress list \<times> (js_error + unit)" where
  \<comment> \<open>a generator that yields its error event and throws\<close>
  "failedRun =
     ([(progressEvent Finalizing 100)\<lparr>error := Some ''boom''\<rparr>], Inl (Error ''boom''))"

definition progressOf :: "emitted \<Rightarrow> int" where
  "progressOf e = (case e of Callback p \<Rightarrow> progress p | Yielded p \<Rightarrow> progress p)"


subsection \<open>Valid JSON with plain strings\<close>










definition commaValue :: string where
  "commaValue = ''{\"a\":\"x, y: z\"}''"

definition commaRepaired :: string where
  "commaRepaired = ''{\"a\":\"x, \"y\": z\"}''"

subsection \<open>Progress of a run\<close>

definition yieldedProgress :: "emitted list \<Rightarrow> int list" where
  \<comment> \<open>the progress values that reach the consumer of the generator\<close>
  "yieldedProgress es = map progress (yieldedOf es)"

definition staged :: "int \<Rightarrow> int \<Rightarrow> emitted list \<Rightarrow> bool" where
  \<comment> \<open>the yielded values ascend within \<open>lo..hi\<close> and every event lies in 0..100\<close>
  "staged lo hi es =
     (lo \<le> hi \<and> sorted (yieldedProgress es)
      \<and> (\<forall>p \<in> set (yieldedProgress es). lo \<le> p \<and> p \<le> hi)
      \<and> (\<forall>e \<in> set es. 0 \<le> progressOf e \<and> progressOf e \<le> 100))"

definition callbacksInRange :: "emitted list \<Rightarrow> bool" where
  "callbacksInRange es =
     (\<forall>e \<in> set es. \<exists>p. e = Callback p \<and> 0 \<le> progress p \<and> progress p \<le> 100)"

definition onlyYields :: "emitted list \<Rightarrow> bool" where
  "onlyYields es = list_all (\<lambda>e. case e of Yielded p \<Rightarrow> True | Callback p \<Rightarrow> False) es"

definition endsWithFinal :: "emitted list \<Rightarrow> bool" where
  \<comment> \<open>the last event of the run is yielded and carries progress 100\<close>
  "endsWithFinal es =
     (es \<noteq> [] \<and> (case last es of Yielded p \<Rightarrow> progress p = 100 | Callback p \<Rightarrow> False))"


subsection \<open>The validator as a list of checks\<close>

text \<open>
  The walk of the validator written as data: the checks in the order of the walk, each
  with the start of its message, the value and the minimum length, and the first check
  that fails. \<open>claimedMinLength\<close> is the minimum length by field name: 3 for
  \<open>id\<close>, 8 for \<open>title\<close>, 5 for any other field.
\<close>

type_synonym content_check = "string \<times> string \<times> nat"

definition violates :: "content_check \<Rightarrow> bool" where
  "violates c = (case c of (label, v, minLength) \<Rightarrow>
                   hasPlaceholder (toLowerCase v) \<or> length (trim v) < minLength)"

fun firstViolation :: "content_check list \<Rightarrow> js_error option" where
  "firstViolation [] = None"
| "firstViolation ((label, v, minLength) # rest) =
     (if violates (label, v, minLength) then Some (Error (label @ quoted v))
      else firstViolation rest)"

fun itemChecks :: "(nat \<Rightarrow> string) \<Rightarrow> nat \<Rightarrow> json list \<Rightarrow> content_check list" where
  "itemChecks label j [] = []"
| "itemChecks label j (item # rest) =
     (case item of JStr p \<Rightarrow> [(label j, p, 8)] | _ \<Rightarrow> []) @ itemChecks label (j + 1) rest"

fun propertyChecks ::
    "(string \<Rightarrow> string) \<Rightarrow> string \<Rightarrow> (string \<Rightarrow> nat) \<Rightarrow> string option \<Rightarrow> (nat \<Rightarrow> string)
      \<Rightarrow> (string \<times> json) list \<Rightarrow> content_check list" where
  "propertyChecks label durationKey minLength listKey itemLabel [] = []"
| "propertyChecks label durationKey minLength listKey itemLabel ((key, value) # rest) =
     (case value of
        JStr v \<Rightarrow>
          if key = durationKey \<and> isValidDuration (toLowerCase v) then []
          else [(label key, v, minLength key)]
      | JArr items \<Rightarrow> if Some key = listKey then itemChecks itemLabel 0 items else []
      | _ \<Rightarrow> [])
     @ propertyChecks label durationKey minLength listKey itemLabel rest"

definition entriesOf :: "json \<Rightarrow> (string \<times> json) list" where
  "entriesOf v = (case entries v of Inr kvs \<Rightarrow> kvs | Inl e \<Rightarrow> [])"

definition partOf :: "json \<Rightarrow> string \<Rightarrow> json option" where
  "partOf outline name =
     (case getProp outline name of
        Inr (Some v) \<Rightarrow> if truthy (Some v) then Some v else None
      | _ \<Rightarrow> None)"

definition sectionsOf :: "json \<Rightarrow> json list" where
  "sectionsOf outline = (case getProp outline ''sections'' of Inr (Some (JArr xs)) \<Rightarrow> xs | _ \<Rightarrow> [])"

fun sectionChecks :: "(string \<Rightarrow> nat) \<Rightarrow> nat \<Rightarrow> json list \<Rightarrow> content_check list" where
  "sectionChecks minLength i [] = []"
| "sectionChecks minLength i (s # rest) =
     propertyChecks
       (\<lambda>key. ''Section '' @ showNat (i + 1) @ '' '' @ key @ '' contains placeholder content: '')
       ''duration'' minLength (Some ''keyPoints'')
       (\<lambda>j. ''Section '' @ showNat (i + 1) @ '' key point '' @ showNat (j + 1)
            @ '' contains placeholder content: '')
       (entriesOf s)
     @ sectionChecks minLength (i + 1) rest"

definition outlineChecks :: "(string \<Rightarrow> nat) \<Rightarrow> (string \<Rightarrow> nat) \<Rightarrow> json \<Rightarrow> content_check list" where
  "outlineChecks outerMinLength sectionMinLength outline =
     (case partOf outline ''overview'' of
        Some part \<Rightarrow>
          propertyChecks
            (\<lambda>key. ''Overview '' @ key @ '' contains placeholder or insufficient content: '')
            ''totalDuration'' outerMinLength None (\<lambda>j. []) (entriesOf part)
      | None \<Rightarrow> [])
     @ sectionChecks sectionMinLength 0 (sectionsOf outline)
     @ (case partOf outline ''finalThoughts'' of
          Some part \<Rightarrow>
            propertyChecks
              (\<lambda>key. ''Final thoughts '' @ key @ '' contains placeholder content: '')
              ''duration'' outerMinLength (Some ''keyTakeaways'')
              (\<lambda>j. ''Final thoughts takeaway '' @ showNat (j + 1)
                   @ '' contains placeholder content: '')
              (entriesOf part)
        | None \<Rightarrow> [])"

definition claimedMinLength :: "string \<Rightarrow> nat" where
  "claimedMinLength key = (if key = ''id'' then 3 else if key = ''title'' then 8 else 5)"

definition verdict :: "js_error option \<Rightarrow> js_error + bool" where
  "verdict v = (case v of None \<Rightarrow> Inr True | Some e \<Rightarrow> Inl e)"

definition shortTitleOutline :: json where
  "shortTitleOutline = JObj [(''overview'', JObj [(''title'', JStr ''Solar'')])]"

definition checkedOutline :: json where
  "checkedOutline =
     JObj [(''overview'', JObj [(''title'', JStr ''Solar''), (''totalDuration'', JStr ''12-15 minutes'')]),
           (''sections'', JArr [JObj [(''id'', JStr ''s_1''), (''title'', JStr ''Solar''),
                                      (''keyPoints'', JArr [JStr ''tbd'']),
                                      (''duration'', JStr ''3 minutes'')]]),
           (''finalThoughts'', JObj [(''title'', JStr ''End'')])]"

definition outcome :: "js_error option \<Rightarrow> js_error + unit" where
  "outcome v = (case v of None \<Rightarrow> Inr () | Some e \<Rightarrow> Inl e)"


section \<open>Properties of the audio combiner\<close>

subsection \<open>Little-endian fields\<close>

lemma thenE_Inr [simp]: "thenE (Inr v) f = f v"
  by (simp add: thenE_def)

lemma thenE_Inl [simp]: "thenE (Inl e) f = Inl e"
  by (simp add: thenE_def)

lemma length_silence [simp]: "length (silence n) = n"
  by (simp add: silence_def)

lemma length_le_bytes [simp]: "length (le_bytes n v) = n"
  by (induction n arbitrary: v) auto

lemma le_value_le_bytes: "v < 256 ^ n \<Longrightarrow> le_value (le_bytes n v) = v"
proof (induction n arbitrary: v)
  case 0
  then show ?case by simp
next
  case (Suc n)
  have "v div 256 < 256 ^ n" using Suc.prems by (simp add: less_mult_imp_div_less mult.commute)
  then have "le_value (le_bytes n (v div 256)) = v div 256" by (rule Suc.IH)
  moreover have "unat (of_nat (v mod 256) :: byte) = v mod 256"
    by (simp add: unat_of_nat)
  ultimately show ?case by simp
qed

lemma le_value_bound: "le_value bs < 256 ^ length bs"
proof (induction bs)
  case Nil
  show ?case by simp
next
  case (Cons b bs)
  have "unat b < 256" using unsigned_less[of b, where 'a=nat] by simp
  then show ?case using Cons by simp
qed

lemma le_value_take: "le_value (take n xs) < 256 ^ n"
proof -
  have "le_value (take n xs) < 256 ^ length (take n xs)" by (rule le_value_bound)
  also have "\<dots> \<le> (256::nat) ^ n" by (rule power_increasing) simp_all
  finally show ?thesis .
qed

lemma extractChunks_ok:
  "\<forall>b \<in> set bs. 44 \<le> length b \<Longrightarrow> extractChunks bs = Inr (map payload bs)"
  by (induction bs) (auto simp: thenE_def readUInt32LE_def readUIntLE_def payload_def declaredDataSize_def)

lemma writeUIntLE_length: "writeUIntLE n v = Inr bs \<Longrightarrow> length bs = n"
  by (auto simp: writeUIntLE_def split: if_splits)

lemma writeUIntLE_of_nat:
  "v < 256 ^ n \<Longrightarrow> writeUIntLE n (of_nat v) = Inr (le_bytes n v)"
proof -
  assume a: "v < 256 ^ n"
  then have "v \<le> 256 ^ n - 1" by simp
  then have "(of_nat v :: rat) \<le> of_nat (256 ^ n - 1)" by (simp only: of_nat_le_iff)
  then show ?thesis by (simp add: writeUIntLE_def)
qed

lemma writeUIntLE_ok:
  "0 \<le> v \<Longrightarrow> v \<le> of_nat (256 ^ n - 1) \<Longrightarrow> \<exists>bs. writeUIntLE n v = Inr bs \<and> length bs = n"
  by (simp add: writeUIntLE_def)

lemma read_ok: "off + n \<le> length buf \<Longrightarrow> readUIntLE n buf off = Inr (le_value (take n (drop off buf)))"
  by (simp add: readUIntLE_def)

subsection \<open>The combined buffer\<close>

lemma combine_ok:
  assumes ne: "buffers \<noteq> []"
    and wav: "\<forall>b \<in> set buffers. 44 \<le> length b \<and> declaredDataSize b \<le> length b - 44"
    and fit: "headerFieldsFit buffers"
  shows "\<exists>out. combineWavBuffers buffers = Inr out
           \<and> drop 44 out = concat (map payload buffers)
           \<and> declaredDataSize out = sum_list (map (length \<circ> payload) buffers)
           \<and> riffSizeOf out + 8 = length out"
proof -
  obtain b rest where bs: "buffers = b # rest" using ne by (cases buffers) auto
  have len: "\<forall>b \<in> set buffers. 44 \<le> length b" using wav by blast
  have b44: "44 \<le> length b" using len bs by simp
  define total where "total = sum_list (map (length \<circ> payload) buffers)"
  have total_alt: "sum_list (map length (map payload buffers)) = total" by (simp add: total_def)
  have ba: "numChannelsOf b * bitsPerSampleOf b \<le> 8 * 65535"
    and br: "sampleRateOf b * (numChannelsOf b * bitsPerSampleOf b) \<le> 8 * 4294967295"
    and tot: "36 + total \<le> 4294967295"
    using fit unfolding headerFieldsFit_def total_def bs by (simp_all add: Let_def comp_def)
  define blockAlign where "blockAlign = (of_nat (numChannelsOf b) :: rat) * (of_nat (bitsPerSampleOf b) / 8)"
  have ba_eq: "blockAlign = of_nat (numChannelsOf b * bitsPerSampleOf b) / 8"
    by (simp add: blockAlign_def)
  have "(of_nat (numChannelsOf b * bitsPerSampleOf b) :: rat) \<le> of_nat (8 * 65535)"
    using ba by (simp only: of_nat_le_iff)
  then have ba_le: "blockAlign \<le> 65535" unfolding ba_eq by simp
  have ba_ge: "0 \<le> blockAlign" unfolding ba_eq by simp
  have br_eq: "of_nat (sampleRateOf b) * blockAlign = of_nat (sampleRateOf b * (numChannelsOf b * bitsPerSampleOf b)) / 8"
    by (simp add: blockAlign_def)
  have "(of_nat (sampleRateOf b * (numChannelsOf b * bitsPerSampleOf b)) :: rat) \<le> of_nat (8 * 4294967295)"
    using br by (simp only: of_nat_le_iff)
  then have br_le: "of_nat (sampleRateOf b) * blockAlign \<le> 4294967295" unfolding br_eq by simp
  have br_ge: "0 \<le> of_nat (sampleRateOf b) * blockAlign" using ba_ge by simp
  obtain align where align: "writeUInt16LE blockAlign = Inr align" "length align = 2"
    using writeUIntLE_ok[of blockAlign 2] ba_le ba_ge by (auto simp: writeUInt16LE_def)
  obtain byteRate where byteRate: "writeUInt32LE (of_nat (sampleRateOf b) * blockAlign) = Inr byteRate" "length byteRate = 4"
    using writeUIntLE_ok[of "of_nat (sampleRateOf b) * blockAlign" 4] br_le br_ge by (auto simp: writeUInt32LE_def)
  have nc: "numChannelsOf b < 256 ^ 2" and bits: "bitsPerSampleOf b < 256 ^ 2"
    and sr: "sampleRateOf b < 256 ^ 4"
    by (simp_all only: numChannelsOf_def bitsPerSampleOf_def sampleRateOf_def le_value_take)
  have riff: "(of_int (int 44 + int total - 8) :: rat) = of_nat (36 + total)" by simp
  have tot4: "36 + total < 256 ^ 4" and tot4': "total < 256 ^ 4" using tot by simp_all
  define hdr where "hdr = ascii ''RIFF'' @ le_bytes 4 (36 + total) @ ascii ''WAVE''
                 @ ascii ''fmt '' @ le_bytes 4 16 @ le_bytes 2 1 @ le_bytes 2 (numChannelsOf b)
                 @ le_bytes 4 (sampleRateOf b) @ byteRate @ align @ le_bytes 2 (bitsPerSampleOf b)
                 @ ascii ''data''"
  define out where "out = hdr @ le_bytes 4 total @ concat (map payload buffers)"
  have w16: "writeUInt32LE 16 = Inr (le_bytes 4 16)" "writeUInt16LE 1 = Inr (le_bytes 2 1)"
    using writeUIntLE_of_nat[of 16 4] writeUIntLE_of_nat[of 1 2]
    by (simp_all add: writeUInt32LE_def writeUInt16LE_def)
  have rd: "readUInt32LE b 24 = Inr (sampleRateOf b)" "readUInt16LE b 34 = Inr (bitsPerSampleOf b)"
    "readUInt16LE b 22 = Inr (numChannelsOf b)"
    using b44 by (simp_all add: readUInt32LE_def readUInt16LE_def read_ok sampleRateOf_def
        bitsPerSampleOf_def numChannelsOf_def)
  have ex: "extractChunks (b # rest) = Inr (map payload buffers)"
    using extractChunks_ok[OF len] bs by simp
  have wr: "writeUInt32LE (of_int (int 44 + int (sum_list (map length (map payload buffers))) - 8))
              = Inr (le_bytes 4 (36 + total))"
    "writeUInt16LE (of_nat (numChannelsOf b)) = Inr (le_bytes 2 (numChannelsOf b))"
    "writeUInt32LE (of_nat (sampleRateOf b)) = Inr (le_bytes 4 (sampleRateOf b))"
    "writeUInt16LE (of_nat (bitsPerSampleOf b)) = Inr (le_bytes 2 (bitsPerSampleOf b))"
    "writeUInt32LE (of_nat (sum_list (map length (map payload buffers)))) = Inr (le_bytes 4 total)"
    using writeUIntLE_of_nat[OF nc] writeUIntLE_of_nat[OF bits] writeUIntLE_of_nat[OF sr]
      writeUIntLE_of_nat[OF tot4] writeUIntLE_of_nat[OF tot4']
    unfolding total_alt riff writeUInt32LE_def writeUInt16LE_def by simp_all
  have res: "combineWavBuffers buffers = Inr out"
    unfolding combineWavBuffers_def bs list.case
    by (simp only: rd ex wr w16 align byteRate thenE_Inr Let_def blockAlign_def[symmetric]
        out_def hdr_def append_assoc)
  have lh: "length hdr = 40" using align byteRate by (simp add: hdr_def ascii_def)
  have d44: "drop 44 out = concat (map payload buffers)" by (simp add: out_def lh)
  have dd: "declaredDataSize out = total"
    using tot4' by (simp add: declaredDataSize_def out_def lh le_value_le_bytes)
  have lout: "length out = 44 + total" by (simp add: out_def lh total_def length_concat comp_def)
  have "take 4 (drop 4 out) = le_bytes 4 (36 + total)"
    by (simp add: out_def hdr_def ascii_def)
  then have rf: "riffSizeOf out = 36 + total" using tot4 by (simp add: riffSizeOf_def le_value_le_bytes)
  show ?thesis using res d44 dd lout rf by (intro exI[of _ out]) (simp add: total_def)
qed


lemma combine_too_large:
  assumes ne: "buffers \<noteq> []"
    and len: "\<forall>b \<in> set buffers. 44 \<le> length b"
    and big: "4294967295 < 36 + sum_list (map (length \<circ> payload) buffers)"
  shows "combineWavBuffers buffers = Inl RangeError"
proof -
  obtain b rest where bs: "buffers = b # rest" using ne by (cases buffers) auto
  have b44: "44 \<le> length b" using len bs by simp
  have rd: "readUInt32LE b 24 = Inr (sampleRateOf b)" "readUInt16LE b 34 = Inr (bitsPerSampleOf b)"
    "readUInt16LE b 22 = Inr (numChannelsOf b)"
    using b44 by (simp_all add: readUInt32LE_def readUInt16LE_def read_ok sampleRateOf_def
        bitsPerSampleOf_def numChannelsOf_def)
  have ex: "extractChunks (b # rest) = Inr (map payload buffers)"
    using extractChunks_ok[OF len] bs by simp
  define total where "total = sum_list (map (length \<circ> payload) buffers)"
  have total_alt: "sum_list (map length (map payload buffers)) = total" by (simp add: total_def)
  have riff: "(of_int (int 44 + int total - 8) :: rat) = of_nat (36 + total)" by simp
  have "(of_nat 4294967295 :: rat) < of_nat (36 + total)"
    using big unfolding total_def[symmetric] by (simp only: of_nat_less_iff)
  then have wr: "writeUInt32LE (of_int (int 44 + int (sum_list (map length (map payload buffers))) - 8))
              = Inl RangeError"
    unfolding total_alt riff writeUInt32LE_def writeUIntLE_def by simp
  show ?thesis
    unfolding combineWavBuffers_def bs list.case
    by (simp only: rd ex wr thenE_Inr thenE_Inl Let_def)
qed

lemma len_gibHeader: "length gibHeader = 44" by (simp add: gibHeader_def)
lemma len_stereoHeader: "length stereoHeader = 44" by (simp add: stereoHeader_def)

lemma payload_gib: "payload gibWav = silence 1073741824"
  by (simp add: payload_def declaredDataSize_def gibWav_def len_gibHeader) (simp add: gibHeader_def)

lemma declared_gib: "declaredDataSize gibWav = 1073741824"
  by (simp add: declaredDataSize_def gibWav_def len_gibHeader) (simp add: gibHeader_def)

lemma le_bytes_2: "le_bytes 2 v = [of_nat (v mod 256), of_nat (v div 256 mod 256)]"
proof -
  have "(2::nat) = Suc (Suc 0)" by simp
  then show ?thesis by (simp only: le_bytes.simps)
qed

lemma le_bytes_4: "le_bytes 4 v = [of_nat (v mod 256), of_nat (v div 256 mod 256),
     of_nat (v div 256 div 256 mod 256), of_nat (v div 256 div 256 div 256 mod 256)]"
proof -
  have "(4::nat) = Suc (Suc (Suc (Suc 0)))" by simp
  then show ?thesis by (simp only: le_bytes.simps)
qed

lemma fields_stereo:
  "sampleRateOf stereoSecond = 44100" "bitsPerSampleOf stereoSecond = 16"
  "numChannelsOf stereoSecond = 2" "declaredDataSize stereoSecond = 176400"
  by (simp_all add: sampleRateOf_def bitsPerSampleOf_def numChannelsOf_def declaredDataSize_def
      stereoSecond_def stereoHeader_def)

lemma length_stereo: "length stereoSecond = 176444"
  by (simp add: stereoSecond_def len_stereoHeader)

lemma payload_stereo: "payload stereoSecond = silence 176400"
  by (simp add: payload_def fields_stereo) (simp add: stereoSecond_def len_stereoHeader)

lemma combine_stereo: "combineWavBuffers [stereoSecond] = Inr stereoSecond"
proof -
  have rd: "readUInt32LE stereoSecond 24 = Inr 44100" "readUInt16LE stereoSecond 34 = Inr 16"
    "readUInt16LE stereoSecond 22 = Inr 2"
    using fields_stereo
    by (simp_all add: readUInt32LE_def readUInt16LE_def read_ok length_stereo sampleRateOf_def
        bitsPerSampleOf_def numChannelsOf_def)
  have ex: "extractChunks [stereoSecond] = Inr [silence 176400]"
    using extractChunks_ok[of "[stereoSecond]"] by (simp add: length_stereo payload_stereo)
  show ?thesis
    unfolding combineWavBuffers_def list.case
    apply (simp only: rd ex thenE_Inr Let_def)
    apply (simp add: writeUInt32LE_def writeUInt16LE_def writeUIntLE_def le_bytes_2 le_bytes_4
        ascii_def stereoSecond_def stereoHeader_def)
    done
qed

lemma round_div: "\<lfloor>(of_int x :: rat) / 88200 + 1 / 2\<rfloor> = (x + 44100) div 88200"
proof -
  have "(of_int x :: rat) / 88200 + 1 / 2 = of_int (x + 44100) / of_int 88200" by simp
  then show ?thesis by (simp only: floor_divide_of_int_eq)
qed


lemma est_stereo: "estimateAudioDuration stereoSecond = 2"
  unfolding estimateAudioDuration_def Let_def round_div length_stereo by simp

lemma hdr_stereo: "headerDuration stereoSecond = 1"
proof -
  have "(of_int (int 176444 - 44) :: rat) / (of_nat 44100 * (of_nat 16 / 8) * of_nat 2) + 1 / 2
        = of_int 3 / of_int 2" by simp
  then show ?thesis
    unfolding headerDuration_def Let_def fields_stereo length_stereo
    by (simp only: floor_divide_of_int_eq)
qed

lemma fields_mono:
  "sampleRateOf monoClip = 44100" "bitsPerSampleOf monoClip = 16"
  "numChannelsOf monoClip = 1" "declaredDataSize monoClip = 4" "length monoClip = 48"
  by (simp_all add: sampleRateOf_def bitsPerSampleOf_def numChannelsOf_def declaredDataSize_def
      monoClip_def)

lemma payload_mono: "payload monoClip = [1, 0, 2, 0]"
  by (simp add: payload_def fields_mono) (simp add: monoClip_def)


section \<open>Properties of the sanitizer, the handler and the research stage\<close>

lemma char_of_eval:
  "char_of (n::nat) = Char (odd n) (odd (n div 2)) (odd (n div 4)) (odd (n div 8))
     (odd (n div 16)) (odd (n div 32)) (odd (n div 64)) (odd (n div 128))"
  by (simp add: char_of_def bit_iff_odd)

lemma parseValue_numeral: "parseValue (numeral k) s = parseValue (Suc (pred_numeral k)) s"
  by (simp add: numeral_eq_Suc)

lemma parseElements_numeral: "parseElements (numeral k) s = parseElements (Suc (pred_numeral k)) s"
  by (simp add: numeral_eq_Suc)

lemma parseMembers_numeral: "parseMembers (numeral k) s = parseMembers (Suc (pred_numeral k)) s"
  by (simp add: numeral_eq_Suc)

lemmas json_eval = jsonParse_def JSON_parse_def parseValue_numeral parseElements_numeral
  parseMembers_numeral skipWs_def isJsonWs_def startsWith_def parseNumber_def isDigit_def
  digitsValue_def ownProperties_def isArrayIndex_def unescape_def unicodeEscape_def hexValue_def
  Let_def char_of_eval

lemmas clean_eval = cleanResponseForJSON_def thinkTag_def jsonFence_def tsFence_def startsWith_def
  trim_def isSpace_def substring_def optNewline_def

lemmas fix_eval = fixCommonJSONIssues_def trailingComma_def escapedNewline_def singleQuotedKey_def
  bareKey_def finalComma_def startsWith_def isSpace_def isIdentStart_def isIdentChar_def Let_def

lemma replaceAll_no_match: "findMatch m s = None \<Longrightarrow> replaceAll m s = s"
  by (induction s) (auto split: option.splits)


lemma parse_short:
  assumes "length (cleanResponseForJSON response) < 10"
  shows "parseJSONFromResponse parser response validateContent = Inl tooShort"
  using assms by (simp add: parseJSONFromResponse_def tooShort_def Let_def)

lemma clean_small: \<open>cleanResponseForJSON ''{"a":1}'' = ''{"a":1}''\<close>
  by (simp add: clean_eval)

lemma parse_small: \<open>JSON_parse ''{"a":1}'' = Inr (JObj [(''a'', JNum 1)])\<close>
  by (simp add: json_eval)







lemma startsWith_Nil [simp]: "startsWith p [] = (p = [])"
  by (auto simp: startsWith_def)

lemma startsWith_iff: "startsWith p t \<longleftrightarrow> (\<exists>ys. t = p @ ys)"
  unfolding startsWith_def by (metis append_eq_conv_conj append_take_drop_id)

lemma indexOf_None_iff:
  "p \<noteq> [] \<Longrightarrow> indexOf p s = None \<longleftrightarrow> (\<forall>i. \<not> startsWith p (drop i s))"
proof (induction s)
  case Nil
  then show ?case by simp
next
  case (Cons c cs)
  show ?case
  proof
    assume a: "indexOf p (c # cs) = None"
    then have n0: "\<not> startsWith p (c # cs)" and r: "indexOf p cs = None"
      by (auto split: if_splits)
    show "\<forall>i. \<not> startsWith p (drop i (c # cs))"
    proof
      fix i show "\<not> startsWith p (drop i (c # cs))"
        using n0 r Cons by (cases i) auto
    qed
  next
    assume a: "\<forall>i. \<not> startsWith p (drop i (c # cs))"
    then have "\<not> startsWith p (c # cs)" using a[rule_format, of 0] by simp
    moreover have "\<forall>i. \<not> startsWith p (drop i cs)"
    proof
      fix i show "\<not> startsWith p (drop i cs)" using a[rule_format, of "Suc i"] by simp
    qed
    ultimately show "indexOf p (c # cs) = None" using Cons by simp
  qed
qed

lemma includes_iff: "p \<noteq> [] \<Longrightarrow> includesStr p s \<longleftrightarrow> (\<exists>xs ys. s = xs @ p @ ys)"
proof
  assume p: "p \<noteq> []" and "includesStr p s"
  then obtain i where "startsWith p (drop i s)"
    by (auto simp: includesStr_def indexOf_None_iff)
  then obtain ys where "drop i s = p @ ys" by (auto simp: startsWith_iff)
  then have "s = take i s @ p @ ys" by (metis append_take_drop_id)
  then show "\<exists>xs ys. s = xs @ p @ ys" by blast
next
  assume p: "p \<noteq> []" and "\<exists>xs ys. s = xs @ p @ ys"
  then obtain xs ys where s: "s = xs @ p @ ys" by blast
  then have "drop (length xs) s = p @ ys" by simp
  then have "startsWith p (drop (length xs) s)" by (auto simp: startsWith_iff)
  then show "includesStr p s" using p by (auto simp: includesStr_def indexOf_None_iff)
qed

lemma includes_drop: "p \<noteq> [] \<Longrightarrow> includesStr p (drop n s) \<Longrightarrow> includesStr p s"
proof -
  assume p: "p \<noteq> []" and "includesStr p (drop n s)"
  then obtain xs ys where "drop n s = xs @ p @ ys" by (auto simp: includes_iff)
  then have "s = (take n s @ xs) @ p @ ys" by (metis append_take_drop_id append_assoc)
  then show ?thesis using p includes_iff by blast
qed

lemma includes_take: "p \<noteq> [] \<Longrightarrow> includesStr p (take n s) \<Longrightarrow> includesStr p s"
proof -
  assume p: "p \<noteq> []" and "includesStr p (take n s)"
  then obtain xs ys where "take n s = xs @ p @ ys" by (auto simp: includes_iff)
  then have "s = xs @ p @ (ys @ drop n s)" by (metis append_take_drop_id append_assoc)
  then show ?thesis using p includes_iff by blast
qed

lemma trim_as_slice: "\<exists>j k. trim s = take k (drop j s)"
proof -
  define t where "t = dropWhile isSpace s"
  have t: "t = drop (length (takeWhile isSpace s)) s" by (simp add: t_def dropWhile_eq_drop)
  have "rev t = takeWhile isSpace (rev t) @ dropWhile isSpace (rev t)" by simp
  then have "t = rev (dropWhile isSpace (rev t)) @ rev (takeWhile isSpace (rev t))"
    by (metis rev_append rev_rev_ident)
  then have "rev (dropWhile isSpace (rev t)) = take (length (rev (dropWhile isSpace (rev t)))) t"
    by (metis append_eq_conv_conj)
  then show ?thesis unfolding trim_def t_def[symmetric] using t by metis
qed

lemma includes_trim: "p \<noteq> [] \<Longrightarrow> includesStr p (trim s) \<Longrightarrow> includesStr p s"
  using trim_as_slice[of s] includes_take includes_drop by metis

lemma includes_substring: "p \<noteq> [] \<Longrightarrow> includesStr p (substring s a b) \<Longrightarrow> includesStr p s"
  unfolding substring_def using includes_take includes_drop by metis

lemma includes_Cons: "includesStr p (c # s) = (startsWith p (c # s) \<or> includesStr p s)"
  by (simp add: includesStr_def)

lemma includes_Nil: "p \<noteq> [] \<Longrightarrow> \<not> includesStr p []"
  by (simp add: includesStr_def)

lemma startsWith_append: "startsWith (p @ q) s \<Longrightarrow> startsWith p s"
  by (auto simp: startsWith_iff)

lemma startsWith_Cons: "startsWith (a # p) (c # s) \<longleftrightarrow> a = c \<and> startsWith p s"
  by (auto simp: startsWith_def)

lemma startsWith_empty [simp]: "startsWith [] s"
  by (simp add: startsWith_def)

lemma jsonFence_None_iff: "jsonFence s = None \<longleftrightarrow> \<not> startsWith ''```'' s"
  using startsWith_append[of "''```''" "''json''" s] by (auto simp: jsonFence_def)

lemma tsFence_Some: "tsFence s \<noteq> None \<Longrightarrow> startsWith ''```'' s"
  using startsWith_append[of "''```''" "''typescript''" s] startsWith_append[of "''```''" "''ts''" s]
  by (auto simp: tsFence_def split: if_splits)

lemma jsonFence_length: "jsonFence s = Some (n, r) \<Longrightarrow> n \<noteq> 0"
  by (auto simp: jsonFence_def split: if_splits)

lemma fence_one: "\<not> startsWith ''`'' s \<Longrightarrow> \<not> startsWith ''`'' (replaceAll jsonFence s)"
proof (cases s)
  case Nil
  then show ?thesis by (simp add: jsonFence_def)
next
  case (Cons c cs)
  assume a: "\<not> startsWith ''`'' s"
  then have c: "c \<noteq> CHR ''`''" using Cons by (simp add: startsWith_Cons)
  then have "jsonFence (c # cs) = None"
    by (simp add: jsonFence_None_iff startsWith_Cons)
  then show ?thesis using Cons c by (simp add: startsWith_Cons)
qed

lemma fence_two: "\<not> startsWith ''``'' s \<Longrightarrow> \<not> startsWith ''``'' (replaceAll jsonFence s)"
proof (cases s)
  case Nil
  then show ?thesis by (simp add: jsonFence_def)
next
  case (Cons c cs)
  assume a: "\<not> startsWith ''``'' s"
  have none: "jsonFence (c # cs) = None"
    using a Cons by (cases cs) (auto simp: jsonFence_None_iff startsWith_Cons)
  show ?thesis
  proof (cases "c = CHR ''`''")
    case True
    then have "\<not> startsWith ''`'' cs" using a Cons by (simp add: startsWith_Cons)
    then have "\<not> startsWith ''`'' (replaceAll jsonFence cs)" by (rule fence_one)
    then show ?thesis using Cons none by (simp add: startsWith_Cons)
  next
    case False
    then show ?thesis using Cons none by (simp add: startsWith_Cons)
  qed
qed

lemma no_fence_after_removal: "\<not> includesStr ''```'' (replaceAll jsonFence s)"
proof (induction jsonFence s rule: replaceAll.induct)
  case 1
  then show ?case by (simp add: jsonFence_def includes_Nil)
next
  case (2 c cs)
  show ?case
  proof (cases "jsonFence (c # cs)")
    case None
    then have ns: "\<not> startsWith ''```'' (c # cs)" by (simp add: jsonFence_None_iff)
    have ih: "\<not> includesStr ''```'' (replaceAll jsonFence cs)" using 2 None by simp
    have "\<not> startsWith ''```'' (c # replaceAll jsonFence cs)"
    proof (cases "c = CHR ''`''")
      case True
      then have "\<not> startsWith ''``'' cs" using ns by (simp add: startsWith_Cons)
      then have "\<not> startsWith ''``'' (replaceAll jsonFence cs)" by (rule fence_two)
      then show ?thesis by (simp add: startsWith_Cons)
    next
      case False
      then show ?thesis by (simp add: startsWith_Cons)
    qed
    then show ?thesis using None ih by (simp add: includes_Cons)
  next
    case (Some a)
    obtain n r where a: "a = (n, r)" by (cases a)
    then have n: "n \<noteq> 0" using Some jsonFence_length by blast
    have r: "r = []" using Some a by (auto simp: jsonFence_def split: if_splits)
    have "\<not> includesStr ''```'' (replaceAll jsonFence (drop n (c # cs)))"
      using 2 Some a n by simp
    then show ?thesis using Some a n r by simp
  qed
qed

lemma findMatch_None: "(\<And>i. m (drop i s) = None) \<Longrightarrow> findMatch m s = None"
proof (induction s)
  case Nil
  then show ?case using Nil[of 0] by simp
next
  case (Cons c cs)
  have "m (c # cs) = None" using Cons.prems[of 0] by simp
  moreover have "findMatch m cs = None"
  proof (rule Cons.IH)
    fix i show "m (drop i cs) = None" using Cons.prems[of "Suc i"] by simp
  qed
  ultimately show ?case by simp
qed

lemma not_includes_drop: "p \<noteq> [] \<Longrightarrow> \<not> includesStr p s \<Longrightarrow> \<not> startsWith p (drop i s)"
  by (simp add: includesStr_def indexOf_None_iff)

lemma jsonFence_identity: "\<not> includesStr ''```'' s \<Longrightarrow> replaceAll jsonFence s = s"
  by (rule replaceAll_no_match, rule findMatch_None)
    (simp add: jsonFence_None_iff not_includes_drop)

lemma tsFence_identity: "\<not> includesStr ''```'' s \<Longrightarrow> replaceAll tsFence s = s"
proof (rule replaceAll_no_match, rule findMatch_None)
  fix i assume "\<not> includesStr ''```'' s"
  then have "\<not> startsWith ''```'' (drop i s)" by (simp add: not_includes_drop)
  then show "tsFence (drop i s) = None" using tsFence_Some by blast
qed

lemma trim_ends:
  assumes "trim s \<noteq> []"
  shows "\<not> isSpace (hd (trim s)) \<and> \<not> isSpace (last (trim s))"
proof -
  define t where "t = dropWhile isSpace s"
  have ts: "trim s = rev (dropWhile isSpace (rev t))" by (simp add: trim_def t_def)
  have ne: "dropWhile isSpace (rev t) \<noteq> []" using assms ts by simp
  then have l: "\<not> isSpace (last (trim s))"
    using hd_dropWhile[OF ne] by (simp add: ts last_rev)
  have tne: "t \<noteq> []" using ne by auto
  then have ht: "\<not> isSpace (hd t)" unfolding t_def using hd_dropWhile by blast
  have "rev t = takeWhile isSpace (rev t) @ dropWhile isSpace (rev t)" by simp
  then have "t = trim s @ rev (takeWhile isSpace (rev t))"
    unfolding ts by (metis rev_append rev_rev_ident)
  then have "hd t = hd (trim s)" using assms by (metis hd_append2)
  then show ?thesis using ht l by simp
qed

lemma trim_id:
  assumes "s \<noteq> []" "\<not> isSpace (hd s)" "\<not> isSpace (last s)"
  shows "trim s = s"
proof -
  have 1: "dropWhile isSpace s = s" using assms(1,2) by (cases s) auto
  obtain r rs where r: "rev s = r # rs" using assms(1) by (cases "rev s") auto
  have "hd (rev s) = last s" using assms(1) by (simp add: hd_rev)
  then have "\<not> isSpace r" using assms(3) r by simp
  then have "dropWhile isSpace (rev s) = rev s" using r by simp
  then show ?thesis by (simp add: trim_def 1)
qed

lemma trim_Nil [simp]: "trim [] = []"
  by (simp add: trim_def)

lemma trim_idem: "trim (trim s) = trim s"
proof (cases "trim s = []")
  case True
  then show ?thesis by simp
next
  case False
  then show ?thesis using trim_ends[OF False] by (intro trim_id) auto
qed

lemma indexOf_char_Some: "indexOf [ch] s = Some a \<Longrightarrow> a < length s \<and> s ! a = ch"
proof (induction s arbitrary: a)
  case Nil
  then show ?case by simp
next
  case (Cons c cs)
  then show ?case by (auto simp: startsWith_def split: if_splits)
qed

lemma lastIndexOf_char_Some: "lastIndexOf [ch] s = Some b \<Longrightarrow> b < length s \<and> s ! b = ch"
proof (induction s arbitrary: b)
  case Nil
  then show ?case by simp
next
  case (Cons c cs)
  then show ?case by (auto simp: startsWith_def split: if_splits option.splits)
qed

lemma indexOf_char_hd: "s \<noteq> [] \<Longrightarrow> hd s = ch \<Longrightarrow> indexOf [ch] s = Some 0"
  by (cases s) (auto simp: startsWith_def)

lemma lastIndexOf_char_snoc: "lastIndexOf [ch] (xs @ [ch]) = Some (length xs)"
  by (induction xs) (auto simp: startsWith_def)

lemma lastIndexOf_char_last: "s \<noteq> [] \<Longrightarrow> last s = ch \<Longrightarrow> lastIndexOf [ch] s = Some (length s - 1)"
  using lastIndexOf_char_snoc[of ch "butlast s"] by (metis append_butlast_last_id length_butlast)

lemma clean_alt:
  "cleanResponseForJSON x = narrow (trim (replaceAll tsFence (replaceAll jsonFence (replaceAll thinkTag x))))"
  by (simp add: cleanResponseForJSON_def narrow_def Let_def)

lemma narrow_cases:
  "narrow c = c \<or> (\<exists>a b. a < b \<and> b < length c \<and> c ! a = CHR ''{'' \<and> c ! b = CHR ''}''
                      \<and> narrow c = take (b + 1 - a) (drop a c))"
  unfolding narrow_def substring_def
  by (auto split: option.splits dest!: indexOf_char_Some lastIndexOf_char_Some)

lemma narrow_fix:
  assumes "narrow c = y" "trim c = c"
  shows "trim y = y \<and> narrow y = y"
proof -
  consider (same) "narrow c = c"
    | (cut) a b where "a < b" "b < length c" "c ! a = CHR ''{''" "c ! b = CHR ''}''"
        "narrow c = take (b + 1 - a) (drop a c)"
    using narrow_cases[of c] by blast
  then show ?thesis
  proof cases
    case same
    then show ?thesis using assms by simp
  next
    case cut
    have y: "y = take (b + 1 - a) (drop a c)" using cut(5) assms(1) by simp
    have ly: "length y = b + 1 - a" using cut(1,2) by (simp add: y)
    have yne: "y \<noteq> []" using ly cut(1) by auto
    have hy: "hd y = CHR ''{''"
      using cut by (simp add: y hd_conv_nth hd_drop_conv_nth)
    have "last y = y ! (length y - 1)" using yne by (simp add: last_conv_nth)
    also have "\<dots> = c ! b" using cut(1,2) by (simp add: y)
    finally have lasty: "last y = CHR ''}''" using cut(4) by simp
    have t: "trim y = y" using yne hy lasty by (intro trim_id) (simp_all add: isSpace_def)
    have i: "indexOf ''{'' y = Some 0" using yne hy by (rule indexOf_char_hd)
    have l: "lastIndexOf ''}'' y = Some (length y - 1)" using yne lasty by (rule lastIndexOf_char_last)
    have "narrow y = y" using cut(1) ly by (simp add: narrow_def i l substring_def)
    then show ?thesis using t by simp
  qed
qed

lemma clean_no_fence: "\<not> includesStr ''```'' (cleanResponseForJSON x)"
proof -
  define u where "u = replaceAll jsonFence (replaceAll thinkTag x)"
  have nu: "\<not> includesStr ''```'' u" unfolding u_def by (rule no_fence_after_removal)
  then have c: "cleanResponseForJSON x = narrow (trim u)"
    by (simp add: clean_alt u_def[symmetric] tsFence_identity)
  have nt: "\<not> includesStr ''```'' (trim u)" using nu includes_trim[of "''```''" u] by auto
  consider (same) "narrow (trim u) = trim u"
    | (cut) a b where "narrow (trim u) = take (b + 1 - a) (drop a (trim u))"
    using narrow_cases[of "trim u"] by blast
  then show ?thesis
  proof cases
    case same
    then show ?thesis using nt c by simp
  next
    case cut
    have "\<not> includesStr ''```'' (drop a (trim u))"
      using nt includes_drop[of "''```''" a "trim u"] by auto
    then have "\<not> includesStr ''```'' (take (b + 1 - a) (drop a (trim u)))"
      using includes_take[of "''```''" "b + 1 - a" "drop a (trim u)"] by auto
    then show ?thesis using cut c by simp
  qed
qed

lemma clean_idempotent_if:
  assumes "findMatch thinkTag (cleanResponseForJSON x) = None"
  shows "cleanResponseForJSON (cleanResponseForJSON x) = cleanResponseForJSON x"
proof -
  define y where "y = cleanResponseForJSON x"
  define c where "c = trim (replaceAll tsFence (replaceAll jsonFence (replaceAll thinkTag x)))"
  have yc: "narrow c = y" by (simp add: y_def c_def clean_alt)
  have tc: "trim c = c" by (simp add: c_def trim_idem)
  have fixed: "trim y = y \<and> narrow y = y" using yc tc by (rule narrow_fix)
  have nf: "\<not> includesStr ''```'' y" unfolding y_def by (rule clean_no_fence)
  have "replaceAll thinkTag y = y" using assms by (simp add: y_def replaceAll_no_match)
  then have "cleanResponseForJSON y = narrow (trim y)"
    using nf by (simp add: clean_alt jsonFence_identity tsFence_identity)
  then show ?thesis using fixed by (simp add: y_def)
qed

lemma clean_cx1: "cleanResponseForJSON ''<th<think>a</think>ink>b</think>'' = ''<think>b</think>''"
  by (simp add: clean_eval)

lemma clean_cx2: "cleanResponseForJSON ''<think>b</think>'' = []"
  by (simp add: clean_eval)


lemma searchWeb_unconfigured: "searchWeb None t q = Inl notConfigured"
  by (simp add: searchWeb_def getTavilyClient_def)

lemma collectSearches_unconfigured:
  "TAVILY_API_KEY env = None \<Longrightarrow> collectSearches env qs = []"
  by (induction qs) (simp_all add: searchWeb_unconfigured)

lemma enrichSections_unconfigured:
  "TAVILY_API_KEY env = None \<Longrightarrow>
   snd (enrichSections env qs n i ss) = map (\<lambda>s. s\<lparr>searchContext := Some []\<rparr>) ss"
proof (induction ss arbitrary: i)
  case Nil
  then show ?case by simp
next
  case (Cons s ss)
  obtain es others where r: "enrichSections env qs n (i + 1) ss = (es, others)" by fastforce
  then have "others = map (\<lambda>s. s\<lparr>searchContext := Some []\<rparr>) ss"
    using Cons.IH[OF Cons.prems, of "i + 1"] by simp
  then show ?case using r Cons.prems by (simp add: collectSearches_unconfigured Let_def)
qed

lemma enrich_unconfigured:
  assumes "TAVILY_API_KEY env = None"
  shows "snd (enrichWithWebSearch env outline c i)
         = Inr (outline\<lparr>sections := map (\<lambda>s. s\<lparr>searchContext := Some []\<rparr>) (sections outline)\<rparr>)"
  using enrichSections_unconfigured[OF assms]
  by (simp add: enrichWithWebSearch_def Let_def split: prod.splits) (metis snd_conv)

lemma enrich_never_raises: "\<exists>enriched. snd (enrichWithWebSearch env outline c i) = Inr enriched"
  by (simp add: enrichWithWebSearch_def Let_def split: prod.splits)


lemma sendEvent_sent:
  "sendEvent ok ch ev = (ch', b) \<Longrightarrow>
   isCancelled ch' = isCancelled ch
   \<and> (if b then sent ch' = sent ch @ [ev] \<and> \<not> isControllerClosed ch' \<and> \<not> isControllerClosed ch
             \<and> \<not> isCancelled ch
       else sent ch' = sent ch \<and> (isControllerClosed ch' \<or> isCancelled ch'))"
  by (auto simp: sendEvent_def split: if_splits)

lemma sendEvent_ok:
  "\<not> isControllerClosed ch \<Longrightarrow> \<not> isCancelled ch \<Longrightarrow> ok (attempts ch) \<Longrightarrow>
   sendEvent ok ch ev = (ch\<lparr>sent := sent ch @ [ev], attempts := attempts ch + 1\<rparr>, True)"
  by (simp add: sendEvent_def)

lemma forAwait_sent:
  "forAwait ok g ps ch = (ch', b) \<Longrightarrow>
   isCancelled ch' = isCancelled ch
   \<and> (\<exists>evs. sent ch' = sent ch @ evs \<and> list_all isStreamEvent evs)
   \<and> (b \<longrightarrow> isControllerClosed ch' \<or> isCancelled ch')"
proof (induction ps arbitrary: ch ch' b)
  case Nil
  then show ?case by auto
next
  case (Cons p ps)
  show ?case
  proof (cases "isControllerClosed ch \<or> isCancelled ch")
    case True
    then show ?thesis using Cons.prems by auto
  next
    case False
    obtain ch1 b1 where s1: "sendEvent ok ch (ProgressEvent p) = (ch1, b1)" by fastforce
    note f1 = sendEvent_sent[OF s1]
    show ?thesis
    proof (cases b1)
      case False
      then show ?thesis using Cons.prems \<open>\<not> (isControllerClosed ch \<or> isCancelled ch)\<close> s1 f1
        by auto
    next
      case True
      note b1 = True
      show ?thesis
      proof (cases "progress p = 100 \<and> orElse (result p) [] \<noteq> []")
        case False
        then have "forAwait ok g ps ch1 = (ch', b)"
          using Cons.prems \<open>\<not> (isControllerClosed ch \<or> isCancelled ch)\<close> s1 b1 by auto
        from Cons.IH[OF this] show ?thesis using f1 b1 by (auto simp: isStreamEvent_def)
      next
        case True
        obtain ch2 b2 where s2: "sendEvent ok ch1 (CompleteEvent (the (result p)) p) = (ch2, b2)"
          by fastforce
        note f2 = sendEvent_sent[OF s2]
        show ?thesis
        proof (cases b2)
          case False
          then show ?thesis
            using Cons.prems \<open>\<not> (isControllerClosed ch \<or> isCancelled ch)\<close> s1 b1 True s2 f1 f2
            by (auto simp: isStreamEvent_def)
        next
          case True
          then have "forAwait ok g ps ch2 = (ch', b)"
            using Cons.prems \<open>\<not> (isControllerClosed ch \<or> isCancelled ch)\<close> s1 b1
              \<open>progress p = 100 \<and> orElse (result p) [] \<noteq> []\<close> s2 by auto
          from Cons.IH[OF this] show ?thesis using f1 f2 b1 True by (auto simp: isStreamEvent_def)
        qed
      qed
    qed
  qed
qed

lemma forAwait_open:
  assumes "\<forall>k. ok k" "\<not> isControllerClosed ch" "\<not> isCancelled ch"
  shows "\<not> snd (forAwait ok g ps ch) \<and> \<not> isControllerClosed (fst (forAwait ok g ps ch))
         \<and> \<not> isCancelled (fst (forAwait ok g ps ch))"
  using assms
proof (induction ps arbitrary: ch)
  case Nil
  then show ?case by simp
next
  case (Cons p ps)
  then show ?case by (simp add: sendEvent_ok)
qed

lemma handle_initial:
  "sent \<lparr>sent = [], attempts = 0, isControllerClosed = False, isCancelled = False\<rparr> = []"
  by simp

lemma close_sent [simp]: "sent (closeController ch) = sent ch"
  by (simp add: closeController_def)

lemma sendDone_sent:
  "sent (sendDone ok ch) = sent ch \<or> (sent (sendDone ok ch) = sent ch @ [DoneEvent])"
  by (auto simp: sendDone_def sendEvent_def)

lemma stream_not_special: "list_all isStreamEvent evs \<Longrightarrow> DoneEvent \<notin> set evs \<and> ErrorEvent e \<notin> set evs"
  by (induction evs) (auto simp: isStreamEvent_def)

lemma handle_shape:
  "\<exists>evs. list_all isStreamEvent evs
     \<and> (sent (handleStream ok g gen) = evs
        \<or> sent (handleStream ok g gen) = evs @ [DoneEvent]
        \<or> (\<exists>e. snd gen = Inl e \<and> sent (handleStream ok g gen) = evs @ [ErrorEvent (message e)]))"
proof -
  define ch0 where "ch0 = \<lparr>sent = [], attempts = 0, isControllerClosed = False, isCancelled = False\<rparr>"
  obtain ch1 b1 where s1: "sendEvent ok ch0 (ProgressEvent (progressEvent Outline 0)) = (ch1, b1)"
    by fastforce
  note f1 = sendEvent_sent[OF s1]
  show ?thesis
  proof (cases b1)
    case False
    then have "sent (handleStream ok g gen) = []"
      using s1 f1 by (simp add: handleStream_def ch0_def[symmetric] Let_def) (simp add: ch0_def)
    then show ?thesis by (intro exI[of _ "[]"]) simp
  next
    case True
    obtain ch2 b2 where s2: "forAwait ok g (fst gen) ch1 = (ch2, b2)" by fastforce
    from forAwait_sent[OF s2] obtain evs where
      evs: "sent ch2 = sent ch1 @ evs" "list_all isStreamEvent evs" by blast
    have s1': "sent ch1 = [ProgressEvent (progressEvent Outline 0)]"
      using f1 True by (simp add: ch0_def)
    define pre where "pre = ProgressEvent (progressEvent Outline 0) # evs"
    have pre: "list_all isStreamEvent pre" "sent ch2 = pre"
      using evs s1' by (simp_all add: pre_def isStreamEvent_def)
    have hs: "handleStream ok g gen =
        (if b2 then closeController (sendDone ok ch2)
         else case snd gen of
                Inr v \<Rightarrow> closeController (sendDone ok ch2)
              | Inl e \<Rightarrow> closeController
                      (if \<not> isControllerClosed ch2 \<and> \<not> isCancelled ch2
                       then fst (sendEvent ok ch2 (ErrorEvent (message e)))
                       else ch2))"
      using s1 True s2 by (simp add: handleStream_def ch0_def[symmetric] Let_def)
    show ?thesis
    proof (cases "b2 \<or> (\<exists>v. snd gen = Inr v)")
      case True
      then have "handleStream ok g gen = closeController (sendDone ok ch2)"
        using hs by auto
      then show ?thesis using sendDone_sent[of ok ch2] pre by (intro exI[of _ pre]) auto
    next
      case False
      then obtain e where e: "snd gen = Inl e" by (cases "snd gen") auto
      have "sent (handleStream ok g gen) = pre \<or> sent (handleStream ok g gen) = pre @ [ErrorEvent (message e)]"
        using hs False e pre by (auto simp: sendEvent_def)
      then show ?thesis using pre e by (intro exI[of _ pre]) auto
    qed
  qed
qed

lemma handle_success:
  assumes "snd gen = Inr v" "\<forall>k. ok k"
  shows "\<exists>evs. sent (handleStream ok g gen) = evs @ [DoneEvent] \<and> list_all isStreamEvent evs"
proof -
  define ch0 where "ch0 = \<lparr>sent = [], attempts = 0, isControllerClosed = False, isCancelled = False\<rparr>"
  define ch1 where "ch1 = ch0\<lparr>sent := sent ch0 @ [ProgressEvent (progressEvent Outline 0)],
                              attempts := attempts ch0 + 1\<rparr>"
  have s1: "sendEvent ok ch0 (ProgressEvent (progressEvent Outline 0)) = (ch1, True)"
    using assms(2) by (simp add: sendEvent_def ch0_def ch1_def)
  have o1: "\<not> isControllerClosed ch1" "\<not> isCancelled ch1" by (simp_all add: ch1_def ch0_def)
  obtain ch2 b2 where s2: "forAwait ok g (fst gen) ch1 = (ch2, b2)" by fastforce
  have o2: "\<not> b2" "\<not> isControllerClosed ch2" "\<not> isCancelled ch2"
    using forAwait_open[OF assms(2) o1, of g "fst gen"] s2 by simp_all
  from forAwait_sent[OF s2] obtain evs where
    evs: "sent ch2 = sent ch1 @ evs" "list_all isStreamEvent evs" by blast
  have "handleStream ok g gen = closeController (sendDone ok ch2)"
    using s1 s2 o2 assms(1) by (simp add: handleStream_def ch0_def[symmetric] Let_def)
  moreover have "sent (sendDone ok ch2) = sent ch2 @ [DoneEvent]"
    using o2 assms(2) by (simp add: sendDone_def sendEvent_def)
  ultimately have "sent (handleStream ok g gen) = (ProgressEvent (progressEvent Outline 0) # evs) @ [DoneEvent]"
    using evs by (simp add: ch1_def ch0_def)
  moreover have "list_all isStreamEvent (ProgressEvent (progressEvent Outline 0) # evs)"
    using evs by (simp add: isStreamEvent_def)
  ultimately show ?thesis by blast
qed

lemmas stream_eval = streamChatCompletion_def processContent_def finalFlush_def deltaContent_def
  getProp_def optProp_def element0_def execLoop.simps slice_def indexValue_def thinkTag_def
  trim_def isSpace_def

section \<open>Properties of the orchestrator\<close>

lemma yieldedProgress_append [simp]:
  "yieldedProgress (xs @ ys) = yieldedProgress xs @ yieldedProgress ys"
  by (simp add: yieldedProgress_def yieldedOf_def)

lemma yieldedProgress_Nil [simp]: "yieldedProgress [] = []"
  by (simp add: yieldedProgress_def yieldedOf_def)

lemma yieldedProgress_Yielded [simp]: "yieldedProgress (Yielded p # es) = progress p # yieldedProgress es"
  by (simp add: yieldedProgress_def yieldedOf_def)

lemma yieldedProgress_Callback [simp]: "yieldedProgress (Callback p # es) = yieldedProgress es"
  by (simp add: yieldedProgress_def yieldedOf_def)

lemma staged_append: "staged a b xs \<Longrightarrow> staged b c ys \<Longrightarrow> staged a c (xs @ ys)"
  unfolding staged_def by (fastforce simp: sorted_append)

lemma staged_mono: "staged a b es \<Longrightarrow> a' \<le> a \<Longrightarrow> b \<le> b' \<Longrightarrow> staged a' b' es"
  unfolding staged_def by fastforce

lemma staged_Nil: "a \<le> b \<Longrightarrow> staged a b []"
  by (simp add: staged_def)

lemma callbacks_no_yield: "callbacksInRange es \<Longrightarrow> yieldedProgress es = []"
  by (induction es) (auto simp: callbacksInRange_def)

lemma staged_callbacks: "callbacksInRange es \<Longrightarrow> a \<le> b \<Longrightarrow> staged a b es"
  using callbacks_no_yield[of es] by (auto simp: staged_def callbacksInRange_def progressOf_def)

lemma staged_yield:
  "a \<le> progress p \<Longrightarrow> progress p \<le> b \<Longrightarrow> 0 \<le> a \<Longrightarrow> b \<le> 100 \<Longrightarrow> staged a b [Yielded p]"
  by (simp add: staged_def progressOf_def)

lemma callbacks_append: "callbacksInRange xs \<Longrightarrow> callbacksInRange ys \<Longrightarrow> callbacksInRange (xs @ ys)"
  by (auto simp: callbacksInRange_def)

lemma callbacks_update:
  "0 \<le> progress p \<Longrightarrow> progress p \<le> 100 \<Longrightarrow> callbacksInRange (updateProgress env p)"
  by (simp add: callbacksInRange_def updateProgress_def)

lemma fst_andThen:
  "fst (andThen r f) = fst r @ (case snd r of Inl e \<Rightarrow> [] | Inr v \<Rightarrow> fst (f v))"
  by (cases r) (auto simp: andThen_def split: sum.splits prod.splits)

lemma snd_andThen:
  "snd (andThen r f) = (case snd r of Inl e \<Rightarrow> Inl e | Inr v \<Rightarrow> snd (f v))"
  by (cases r) (auto simp: andThen_def split: sum.splits prod.splits)

lemma staged_andThen:
  assumes "staged a b (fst r)" "\<And>v. staged b c (fst (f v))"
  shows "staged a c (fst (andThen r f))"
proof (cases "snd r")
  case (Inl e)
  have "b \<le> c" using assms(2)[of undefined] by (simp add: staged_def)
  then show ?thesis using assms(1) Inl by (simp add: fst_andThen staged_mono)
next
  case (Inr v)
  then show ?thesis using staged_append[OF assms(1) assms(2)[of v]] by (simp add: fst_andThen)
qed

lemma callbacks_andThen:
  assumes "callbacksInRange (fst r)" "\<And>v. callbacksInRange (fst (f v))"
  shows "callbacksInRange (fst (andThen r f))"
  using assms by (cases "snd r") (simp_all add: fst_andThen callbacks_append)

lemma roundJS_mono: "x \<le> y \<Longrightarrow> roundJS x \<le> roundJS y"
  by (simp add: roundJS_def floor_mono)

lemma roundJS_of_int: "roundJS (of_int k) = k"
  unfolding roundJS_def by (simp add: floor_unique)

lemma roundJS_between:
  assumes "of_int lo \<le> x" "x \<le> of_int hi"
  shows "lo \<le> roundJS x \<and> roundJS x \<le> hi"
  using roundJS_mono[OF assms(1)] roundJS_mono[OF assms(2)] by (simp add: roundJS_of_int)

lemma fraction_bounds: "i \<le> n \<Longrightarrow> 0 \<le> (of_nat i / of_nat n :: rat) \<and> (of_nat i / of_nat n :: rat) \<le> 1"
  by (cases "n = 0") (simp_all add: divide_le_eq_1)

lemma scriptProgress_bounds:
  "i \<le> n \<Longrightarrow> 50 \<le> roundJS (50 + (of_nat i / of_nat n) * 25)
            \<and> roundJS (50 + (of_nat i / of_nat n) * 25) \<le> 75"
proof -
  assume "i \<le> n"
  then have f: "0 \<le> (of_nat i / of_nat n :: rat)" "(of_nat i / of_nat n :: rat) \<le> 1"
    using fraction_bounds by blast+
  define q where "q = (of_nat i / of_nat n :: rat)"
  have "q * 25 \<le> 1 * 25" using f(2) unfolding q_def[symmetric] by (intro mult_right_mono) simp_all
  then have "50 + q * 25 \<le> (of_int 75 :: rat)" by simp
  moreover have "(of_int 50 :: rat) \<le> 50 + q * 25" using f(1) unfolding q_def[symmetric] by simp
  ultimately show ?thesis unfolding q_def by (rule roundJS_between[rotated])
qed

lemma scriptProgress_mono:
  "i \<le> j \<Longrightarrow> roundJS (50 + (of_nat i / of_nat n) * 25) \<le> roundJS (50 + (of_nat j / of_nat n) * 25)"
  by (rule roundJS_mono) (simp add: divide_right_mono)

lemma scriptProgress_full:
  "0 < n \<Longrightarrow> roundJS (50 + (of_nat n / of_nat n) * 25) = 75"
  using roundJS_of_int[of 75] by simp

lemma searchProgress_bounds:
  "i \<le> n \<Longrightarrow> 0 \<le> roundJS (35 + (of_nat i / of_nat n) * 20)
            \<and> roundJS (35 + (of_nat i / of_nat n) * 20) \<le> 100"
proof -
  assume "i \<le> n"
  then have f: "0 \<le> (of_nat i / of_nat n :: rat)" "(of_nat i / of_nat n :: rat) \<le> 1"
    using fraction_bounds by blast+
  define q where "q = (of_nat i / of_nat n :: rat)"
  have "q * 20 \<le> 1 * 20" using f(2) unfolding q_def[symmetric] by (intro mult_right_mono) simp_all
  then have "35 + q * 20 \<le> (of_int 100 :: rat)" by simp
  moreover have "(of_int 0 :: rat) \<le> 35 + q * 20" using f(1) unfolding q_def[symmetric] by simp
  ultimately show ?thesis unfolding q_def by (rule roundJS_between[rotated])
qed

lemma progress_progressEvent [simp]: "progress (progressEvent s p) = p"
  by (simp add: progressEvent_def)

lemma tryAttempts_callbacks:
  "\<forall>a \<in> set as. 1 \<le> a \<and> a \<le> 3 \<Longrightarrow> callbacksInRange (fst (tryAttempts env as le))"
proof (induction as arbitrary: le)
  case Nil
  then show ?case by (simp add: callbacksInRange_def)
next
  case (Cons a as)
  have s: "callbacksInRange (updateProgress env (progressEvent Outline (10 + (int a - 1) * 5)))"
    using Cons.prems by (intro callbacks_update) auto
  show ?case
  proof (cases "outlineAttempt env a")
    case (Inl e)
    have "callbacksInRange (fst (tryAttempts env as (Some e)))" using Cons by simp
    then show ?thesis using Inl s by (simp add: Let_def callbacks_append split_beta)
  next
    case (Inr outline)
    then show ?thesis using s by (simp add: Let_def callbacks_append callbacks_update)
  qed
qed

lemma outline_callbacks: "callbacksInRange (fst (generatePodcastOutline env))"
proof -
  have t: "callbacksInRange (fst (tryAttempts env [1, 2, 3] None))"
    by (rule tryAttempts_callbacks) auto
  obtain es r where r: "tryAttempts env [1, 2, 3] None = (es, r)" by fastforce
  then have "callbacksInRange es" using t by simp
  then show ?thesis
    using r by (cases r) (simp_all add: generatePodcastOutline_def Let_def callbacks_append callbacks_update)
qed

lemma enrichSections_callbacks:
  "i + length ss = n \<Longrightarrow> callbacksInRange (fst (enrichSections env qs n i ss))"
proof (induction ss arbitrary: i)
  case Nil
  then show ?case by (simp add: callbacksInRange_def)
next
  case (Cons s ss)
  have "i \<le> n" using Cons.prems by simp
  then have "callbacksInRange (updateProgress env
                 ((progressEvent Search (roundJS (35 + (of_nat i / of_nat n) * 20)))
                    \<lparr>currentSection := Some (PodcastSection.title s)\<rparr>))"
    using searchProgress_bounds[of i n] by (intro callbacks_update) simp_all
  moreover have "callbacksInRange (fst (enrichSections env qs n (i + 1) ss))"
    using Cons by simp
  ultimately show ?case by (simp add: Let_def callbacks_append split_beta del: enrichSections.simps)
      (simp add: Let_def split_beta callbacks_append)
qed

lemma enrich_callbacks: "callbacksInRange (fst (enrichWithWebSearch env outline c i))"
  using enrichSections_callbacks[of 0 "sections outline" "length (sections outline)" env]
  by (simp add: enrichWithWebSearch_def Let_def callbacks_append callbacks_update split_beta)

lemma streamScript_callbacks:
  "(\<And>t. callbacksInRange (onChunk t)) \<Longrightarrow> callbacksInRange (fst (streamScript onChunk chunks acc))"
proof (induction chunks arbitrary: acc)
  case Nil
  then show ?case by (simp add: callbacksInRange_def)
next
  case (Cons a chunks)
  have "callbacksInRange (onChunk (acc @ a))" using Cons.prems by simp
  moreover have "callbacksInRange (fst (streamScript onChunk chunks (acc @ a)))"
    using Cons.IH[OF Cons.prems] by simp
  ultimately show ?case by (simp add: split_beta callbacks_append)
qed

lemma sectionScript_callbacks:
  "(\<And>t. callbacksInRange (onChunk t)) \<Longrightarrow> callbacksInRange (fst (generateSectionScript env s onChunk))"
  using streamScript_callbacks[of onChunk]
  by (simp add: generateSectionScript_def split_beta)

lemma staged_emit_yield:
  "a \<le> progress p \<Longrightarrow> progress p \<le> b \<Longrightarrow> 0 \<le> a \<Longrightarrow> b \<le> 100
   \<Longrightarrow> staged a b (fst (emit [Yielded p]))"
  by (simp add: emit_def staged_yield)

lemma progress_update_simps [simp]:
  "progress (p\<lparr>currentSection := c\<rparr>) = progress p"
  "progress (p\<lparr>result := r\<rparr>) = progress p"
  "progress (p\<lparr>error := e\<rparr>) = progress p"
  by simp_all

lemma scriptSections_staged:
  "i + length ss = n \<Longrightarrow>
   staged (roundJS (50 + (of_nat i / of_nat n) * 25)) 75 (fst (scriptSections env n i ss))"
proof (induction ss arbitrary: i)
  case Nil
  then have "roundJS (50 + (of_nat i / of_nat n) * 25) \<le> 75"
    using scriptProgress_bounds[of i n] by simp
  then show ?case by (simp add: staged_Nil)
next
  case (Cons s ss)
  define r0 where "r0 = roundJS (50 + (of_nat i / of_nat n) * 25)"
  define r1 where "r1 = roundJS (50 + (of_nat (i + 1) / of_nat n) * 25)"
  have i: "i \<le> n" "i + 1 \<le> n" using Cons.prems by simp_all
  have b0: "50 \<le> r0" "r0 \<le> 75" using scriptProgress_bounds[OF i(1)] by (simp_all add: r0_def)
  have b1: "50 \<le> r1" "r1 \<le> 75" using scriptProgress_bounds[OF i(2)] by (simp_all add: r1_def)
  have m: "r0 \<le> r1" unfolding r0_def r1_def by (rule scriptProgress_mono) simp
  have s1: "staged r0 r0 (fst (emit [Yielded ((progressEvent Script r0)
                               \<lparr>currentSection := Some (PodcastSection.title s)\<rparr>)]))"
    using b0 by (intro staged_emit_yield) simp_all
  have cb: "\<And>t. callbacksInRange (updateProgress env
                  ((progressEvent Script r0)
                     \<lparr>currentSection := Some (PodcastSection.title s), result := Some t\<rparr>))"
    using b0 by (intro callbacks_update) simp_all
  have s2: "\<And>v. staged r0 r0 (fst (generateSectionScript env s (\<lambda>partialScript.
                updateProgress env
                  ((progressEvent Script r0)
                     \<lparr>currentSection := Some (PodcastSection.title s),
                      result := Some partialScript\<rparr>))))"
    by (rule staged_callbacks, rule sectionScript_callbacks, rule cb) simp
  have s3: "\<And>v t. staged r0 r1 (fst (emit [Yielded ((progressEvent Script r1)
                               \<lparr>currentSection := Some (PodcastSection.title s),
                                result := Some t\<rparr>)]))"
    using b0 b1 m by (intro staged_emit_yield) simp_all
  have s4: "\<And>v. staged r1 75 (fst (scriptSections env n (i + 1) ss))"
    unfolding r1_def using Cons.prems by (intro Cons.IH) simp
  have s5: "\<And>x. staged 75 75 (fst (([] :: emitted list), x))" by (simp add: staged_Nil)
  show ?case
    unfolding scriptSections.simps r0_def[symmetric] r1_def[symmetric]
    by (rule staged_andThen[OF s1], rule staged_andThen[OF s2], rule staged_andThen[OF s3],
        rule staged_andThen[OF s4], rule s5)
qed

lemma createFinalScript_staged: "staged 88 99 (fst (createFinalScript env outline))"
  unfolding createFinalScript_def
  apply (rule staged_andThen[where b = 92])
   apply (simp add: emit_def staged_def progressOf_def)
  apply (rule staged_andThen[where b = 96])
   apply (simp add: staged_def progressOf_def fst_andThen emit_def split: sum.splits)
  apply (rule staged_andThen[where b = 98])
   apply (simp add: emit_def staged_def progressOf_def)
  apply (rule staged_andThen[where b = 98])
   apply (simp add: staged_Nil)
  apply (simp add: staged_def progressOf_def)
  done

lemma case_prod_andThen:
  "(case x of (es, r) \<Rightarrow> andThen (es, r) (f es)) = andThen x (f (fst x))"
  by (cases x) simp

lemma pipeline_staged: "staged 25 100 (fst (pipeline env c i))"
proof -
  have o: "staged 25 25 (fst (generatePodcastOutline env))"
    by (rule staged_callbacks[OF outline_callbacks]) simp
  have y25: "\<And>v t. staged 25 25 (fst (emit [Yielded ((progressEvent Outline 25)\<lparr>result := Some t\<rparr>)]))"
    by (intro staged_emit_yield) simp_all
  have en: "\<And>v outline. staged 25 25 (fst (enrichWithWebSearch env outline c i))"
    by (rule staged_callbacks[OF enrich_callbacks]) simp
  have y50: "\<And>v. staged 25 50 (fst (emit [Yielded (progressEvent Search 50)]))"
    by (intro staged_emit_yield) simp_all
  have sc: "\<And>v ss. staged 50 75 (fst (scriptSections env (length ss) 0 ss))"
    using scriptSections_staged[of 0 _ _ env] roundJS_of_int[of 50] by simp
  have y75: "\<And>v. staged 75 75 (fst (emit [Yielded (progressEvent Script 75)]))"
    by (intro staged_emit_yield) simp_all
  have cb: "\<And>t. callbacksInRange (updateProgress env
                     ((progressEvent Script 75)
                        \<lparr>currentSection := Some ''final_thoughts'', result := Some t\<rparr>))"
    by (intro callbacks_update) simp_all
  have ft: "\<And>v s. staged 75 75 (fst (generateSectionScript env s (\<lambda>partialScript.
                   updateProgress env
                     ((progressEvent Script 75)
                        \<lparr>currentSection := Some ''final_thoughts'',
                         result := Some partialScript\<rparr>))))"
    by (rule staged_callbacks, rule sectionScript_callbacks, rule cb) simp
  have y85: "\<And>v. staged 75 85 (fst (emit [Yielded (progressEvent Combining 85)]))"
    by (intro staged_emit_yield) simp_all
  have y87: "\<And>v. staged 85 87 (fst (emit [Yielded (progressEvent Finalizing 87)]))"
    by (intro staged_emit_yield) simp_all
  have fin: "\<And>v outline. staged 87 99 (fst (createFinalScript env outline))"
    by (rule staged_mono[OF createFinalScript_staged]) simp_all
  have y100: "\<And>v t x. staged 99 100 (fst ([Yielded ((progressEvent Finalizing 100)\<lparr>result := Some t\<rparr>)], x))"
    by (simp add: staged_yield)
  show ?thesis
    unfolding pipeline_def Let_def case_prod_andThen
    by (rule staged_andThen[OF o], rule staged_andThen[OF y25], rule staged_andThen[OF en],
        rule staged_andThen[OF y50], rule staged_andThen[OF sc], rule staged_andThen[OF y75],
        rule staged_andThen[OF ft], rule staged_andThen[OF y85], rule staged_andThen[OF y87],
        rule staged_andThen[OF fin], rule y100)
qed

lemma andThen_InrD:
  "snd (andThen r f) = Inr w \<Longrightarrow>
   \<exists>v. snd r = Inr v \<and> snd (f v) = Inr w \<and> fst (andThen r f) = fst r @ fst (f v)"
  by (cases r) (auto simp: andThen_def split: sum.splits prod.splits)

lemma endsWithFinal_iff:
  "endsWithFinal es \<longleftrightarrow> (\<exists>pre p. es = pre @ [Yielded p] \<and> progress p = 100)"
proof
  assume "endsWithFinal es"
  then obtain p where "es \<noteq> []" "last es = Yielded p" "progress p = 100"
    by (auto simp: endsWithFinal_def split: emitted.splits)
  then have "es = butlast es @ [Yielded p]" by (metis append_butlast_last_id)
  then show "\<exists>pre p. es = pre @ [Yielded p] \<and> progress p = 100"
    using \<open>progress p = 100\<close> by blast
next
  assume "\<exists>pre p. es = pre @ [Yielded p] \<and> progress p = 100"
  then show "endsWithFinal es" by (auto simp: endsWithFinal_def)
qed

lemma endsWithFinal_append: "endsWithFinal ys \<Longrightarrow> endsWithFinal (xs @ ys)"
  unfolding endsWithFinal_iff by (metis append_assoc)

lemma endsWithFinal_andThen:
  assumes "snd (andThen r f) = Inr w" "\<And>v. snd (f v) = Inr w \<Longrightarrow> endsWithFinal (fst (f v))"
  shows "endsWithFinal (fst (andThen r f))"
proof -
  obtain v where v: "snd r = Inr v" "snd (f v) = Inr w" "fst (andThen r f) = fst r @ fst (f v)"
    using andThen_InrD[OF assms(1)] by blast
  show ?thesis unfolding v(3) by (rule endsWithFinal_append, rule assms(2), rule v(2))
qed

lemma pipeline_success_final:
  assumes "snd (pipeline env c i) = Inr out"
  shows "endsWithFinal (fst (pipeline env c i))"
  using assms unfolding pipeline_def Let_def case_prod_andThen
  apply (elim endsWithFinal_andThen)+
  apply (simp add: endsWithFinal_iff)
  done

lemma script_run:
  "fst (generatePodcastScript env c i)
     = fst (pipeline env c i)
       @ (case snd (pipeline env c i) of
            Inr v \<Rightarrow> []
          | Inl e \<Rightarrow> [Yielded ((progressEvent Finalizing 100)\<lparr>error := Some (message e)\<rparr>)])"
  "snd (generatePodcastScript env c i) = snd (pipeline env c i)"
  by (cases "pipeline env c i"; simp add: generatePodcastScript_def split: sum.splits)+

lemma script_staged: "staged 25 100 (fst (generatePodcastScript env c i))"
proof (cases "snd (pipeline env c i)")
  case (Inl e)
  have "staged 100 100 [Yielded ((progressEvent Finalizing 100)\<lparr>error := Some (message e)\<rparr>)]"
    by (simp add: staged_yield)
  then show ?thesis using Inl staged_append[OF pipeline_staged[of env c i]] by (simp add: script_run)
next
  case (Inr v)
  then show ?thesis using pipeline_staged[of env c i] by (simp add: script_run)
qed

lemma script_final: "endsWithFinal (fst (generatePodcastScript env c i))"
proof (cases "snd (pipeline env c i)")
  case (Inl e)
  then show ?thesis by (simp add: script_run endsWithFinal_iff)
next
  case (Inr v)
  then show ?thesis using pipeline_success_final[of env c i v] by (simp add: script_run)
qed

lemma endsWithFinal_last:
  "endsWithFinal es \<Longrightarrow> yieldedProgress es \<noteq> [] \<and> last (yieldedProgress es) = 100"
  by (auto simp: endsWithFinal_iff)

lemma callback_prefix:
  assumes "onProgress env" "outlineAttempt env 1 = Inr outline"
  shows "\<exists>rest. map progressOf (fst (generatePodcastScript env c i)) = [10, 10, 30, 25] @ rest"
proof -
  have o: "generatePodcastOutline env
        = ([Callback (progressEvent Outline 10), Callback (progressEvent Outline 10),
            Callback (progressEvent Outline 30)], Inr outline)"
    using assms by (simp add: generatePodcastOutline_def updateProgress_def Let_def)
  have "\<exists>rest. fst (pipeline env c i)
        = [Callback (progressEvent Outline 10), Callback (progressEvent Outline 10),
           Callback (progressEvent Outline 30),
           Yielded ((progressEvent Outline 25)\<lparr>result := Some (stringifyOutline env outline)\<rparr>)] @ rest"
    unfolding pipeline_def by (simp add: fst_andThen o emit_def)
  then obtain rest where "fst (pipeline env c i)
        = [Callback (progressEvent Outline 10), Callback (progressEvent Outline 10),
           Callback (progressEvent Outline 30),
           Yielded ((progressEvent Outline 25)\<lparr>result := Some (stringifyOutline env outline)\<rparr>)] @ rest"
    by blast
  then show ?thesis by (simp add: script_run progressOf_def)
qed

lemma onlyYields_Nil [simp]: "onlyYields []"
  by (simp add: onlyYields_def)

lemma onlyYields_append [simp]: "onlyYields (xs @ ys) = (onlyYields xs \<and> onlyYields ys)"
  by (simp add: onlyYields_def)

lemma onlyYields_Yielded [simp]: "onlyYields (Yielded p # es) = onlyYields es"
  by (simp add: onlyYields_def)

lemma onlyYields_andThen:
  "onlyYields (fst r) \<Longrightarrow> (\<And>v. onlyYields (fst (f v))) \<Longrightarrow> onlyYields (fst (andThen r f))"
  by (cases r) (auto simp: andThen_def split: sum.splits prod.splits, metis fst_conv)

lemma onlyYields_progress: "onlyYields es \<Longrightarrow> map progressOf es = yieldedProgress es"
  by (induction es)
     (auto simp: onlyYields_def progressOf_def yieldedProgress_def yieldedOf_def split: emitted.splits)

lemma update_quiet: "\<not> onProgress env \<Longrightarrow> updateProgress env p = []"
  by (simp add: updateProgress_def)

lemma tryAttempts_quiet: "\<not> onProgress env \<Longrightarrow> fst (tryAttempts env as le) = []"
  by (induction as arbitrary: le) (auto simp: update_quiet Let_def split_beta split: sum.splits)

lemma outline_quiet: "\<not> onProgress env \<Longrightarrow> fst (generatePodcastOutline env) = []"
  using tryAttempts_quiet[of env "[1, 2, 3]" None]
  by (auto simp: generatePodcastOutline_def update_quiet Let_def split: prod.splits sum.splits)

lemma enrichSections_quiet: "\<not> onProgress env \<Longrightarrow> fst (enrichSections env qs n i ss) = []"
  by (induction ss arbitrary: i) (simp_all add: update_quiet Let_def split_beta)

lemma enrich_quiet: "\<not> onProgress env \<Longrightarrow> fst (enrichWithWebSearch env outline c i) = []"
  by (simp add: enrichWithWebSearch_def update_quiet enrichSections_quiet Let_def split_beta)

lemma streamScript_quiet: "(\<And>t. onChunk t = []) \<Longrightarrow> fst (streamScript onChunk chunks acc) = []"
  by (induction chunks arbitrary: acc) (simp_all add: split_beta)

lemma sectionScript_quiet:
  "(\<And>t. onChunk t = []) \<Longrightarrow> fst (generateSectionScript env s onChunk) = []"
  by (simp add: generateSectionScript_def split_beta streamScript_quiet)

lemma scriptSections_quiet: "\<not> onProgress env \<Longrightarrow> onlyYields (fst (scriptSections env n i ss))"
proof (induction ss arbitrary: i)
  case Nil
  then show ?case by simp
next
  case (Cons s ss)
  have q: "\<And>p. onlyYields (fst (generateSectionScript env s (\<lambda>t. updateProgress env (p t))))"
    using Cons.prems by (simp add: sectionScript_quiet update_quiet)
  show ?case
    unfolding scriptSections.simps
    apply (rule onlyYields_andThen, simp add: emit_def)
    apply (rule onlyYields_andThen, rule q)
    apply (rule onlyYields_andThen, simp add: emit_def)
    apply (rule onlyYields_andThen, rule Cons.IH[OF Cons.prems])
    apply simp
    done
qed

lemma createFinalScript_quiet: "onlyYields (fst (createFinalScript env outline))"
  unfolding createFinalScript_def
  apply (rule onlyYields_andThen, simp add: emit_def)
  apply (rule onlyYields_andThen)
   apply (cases "structuredCompletion env outline")
    apply (simp add: fst_andThen emit_def split: sum.splits)
    apply (cases "fallbackCompletion env outline"; simp add: andThen_def emit_def)
   apply simp
  apply (rule onlyYields_andThen, simp add: emit_def)
  apply (rule onlyYields_andThen, simp)
  apply (simp add: fst_andThen emit_def split: sum.splits)
  done

lemma pipeline_quiet:
  assumes "\<not> onProgress env"
  shows "onlyYields (fst (pipeline env c i))"
proof -
  have q: "\<And>s p. onlyYields (fst (generateSectionScript env s (\<lambda>t. updateProgress env (p t))))"
    using assms by (simp add: sectionScript_quiet update_quiet)
  show ?thesis
    unfolding pipeline_def Let_def case_prod_andThen
    apply (rule onlyYields_andThen, simp add: outline_quiet[OF assms])
    apply (rule onlyYields_andThen, simp add: emit_def)
    apply (rule onlyYields_andThen, simp add: enrich_quiet[OF assms])
    apply (rule onlyYields_andThen, simp add: emit_def)
    apply (rule onlyYields_andThen, rule scriptSections_quiet[OF assms])
    apply (rule onlyYields_andThen, simp add: emit_def)
    apply (rule onlyYields_andThen, rule q)
    apply (rule onlyYields_andThen, simp add: emit_def)
    apply (rule onlyYields_andThen, simp add: emit_def)
    apply (rule onlyYields_andThen, rule createFinalScript_quiet)
    apply simp
    done
qed

lemma script_quiet: "\<not> onProgress env \<Longrightarrow> onlyYields (fst (generatePodcastScript env c i))"
  using pipeline_quiet[of env c i] by (simp add: script_run split: sum.splits)

lemma staged_range: "staged lo hi es \<Longrightarrow> \<forall>e \<in> set es. 0 \<le> progressOf e \<and> progressOf e \<le> 100"
  by (simp add: staged_def)

lemma staged_sorted: "staged lo hi es \<Longrightarrow> sorted (yieldedProgress es)"
  by (simp add: staged_def)

lemma offline_prefix:
  "\<exists>rest. map progressOf (fst (generatePodcastScript (offlineEnv True) c i))
            = [10, 10, 30, 25] @ rest"
  by (rule callback_prefix[where outline = demoOutline]) (simp_all add: offlineEnv_def)

section \<open>Properties of the content validator\<close>

lemma outcome_simps [simp]: "outcome None = Inr ()" "outcome (Some e) = Inl e"
  by (simp_all add: outcome_def)

lemma firstViolation_append:
  "firstViolation (xs @ ys) = (case firstViolation xs of Some e \<Rightarrow> Some e | None \<Rightarrow> firstViolation ys)"
  by (induction xs rule: firstViolation.induct) simp_all

lemma outcome_append:
  "outcome (firstViolation (xs @ ys)) = thenE (outcome (firstViolation xs)) (\<lambda>_. outcome (firstViolation ys))"
  by (cases "firstViolation xs") (simp_all add: firstViolation_append)

lemma keyPointsLoop_checks:
  "keyPointsLoop i j points
     = outcome (firstViolation (itemChecks
         (\<lambda>j. ''Section '' @ showNat (i + 1) @ '' key point '' @ showNat (j + 1)
              @ '' contains placeholder content: '') j points))"
  by (induction points arbitrary: j) (auto simp: violates_def Let_def split: json.splits)

lemma takeawaysLoop_checks:
  "takeawaysLoop j takeaways
     = outcome (firstViolation (itemChecks
         (\<lambda>j. ''Final thoughts takeaway '' @ showNat (j + 1)
              @ '' contains placeholder content: '') j takeaways))"
  by (induction takeaways arbitrary: j) (auto simp: violates_def Let_def split: json.splits)

lemma overviewLoop_checks:
  "overviewLoop kvs
     = outcome (firstViolation (propertyChecks
         (\<lambda>key. ''Overview '' @ key @ '' contains placeholder or insufficient content: '')
         ''totalDuration'' (\<lambda>key. 3) None (\<lambda>j. []) kvs))"
  by (induction kvs rule: overviewLoop.induct) (auto simp: violates_def Let_def split: json.splits)

lemma sectionLoop_checks:
  "sectionLoop i kvs
     = outcome (firstViolation (propertyChecks
         (\<lambda>key. ''Section '' @ showNat (i + 1) @ '' '' @ key @ '' contains placeholder content: '')
         ''duration'' claimedMinLength (Some ''keyPoints'')
         (\<lambda>j. ''Section '' @ showNat (i + 1) @ '' key point '' @ showNat (j + 1)
              @ '' contains placeholder content: '') kvs))"
proof (induction kvs)
  case Nil
  then show ?case by simp
next
  case (Cons kv kvs)
  obtain key "value" where kv: "kv = (key, value)" by (cases kv)
  show ?case unfolding kv
    by (cases "value")
       (simp_all add: Cons.IH outcome_append keyPointsLoop_checks violates_def Let_def
          claimedMinLength_def)
qed

lemma finalThoughtsLoop_checks:
  "finalThoughtsLoop kvs
     = outcome (firstViolation (propertyChecks
         (\<lambda>key. ''Final thoughts '' @ key @ '' contains placeholder content: '')
         ''duration'' (\<lambda>key. 3) (Some ''keyTakeaways'')
         (\<lambda>j. ''Final thoughts takeaway '' @ showNat (j + 1)
              @ '' contains placeholder content: '') kvs))"
proof (induction kvs)
  case Nil
  then show ?case by simp
next
  case (Cons kv kvs)
  obtain key "value" where kv: "kv = (key, value)" by (cases kv)
  show ?case unfolding kv
    by (cases "value")
       (simp_all add: Cons.IH outcome_append takeawaysLoop_checks violates_def Let_def)
qed

lemma entries_entriesOf: "v \<noteq> JNull \<Longrightarrow> entries v = Inr (entriesOf v)"
  by (cases v) (simp_all add: entries_def entriesOf_def)

lemma sectionsLoop_checks:
  "JNull \<notin> set xs \<Longrightarrow>
   sectionsLoop i xs = outcome (firstViolation (sectionChecks claimedMinLength i xs))"
proof (induction xs arbitrary: i)
  case Nil
  then show ?case by simp
next
  case (Cons s xs)
  then have "s \<noteq> JNull" "JNull \<notin> set xs" by auto
  then show ?case
    using Cons.IH[of "i + 1"]
    by (simp add: entries_entriesOf sectionLoop_checks outcome_append)
qed

lemma truthy_not_null: "truthy (Some v) \<Longrightarrow> v \<noteq> JNull"
  by (cases v) simp_all

lemma verdict_outcome:
  "verdict (firstViolation (xs @ ys @ zs))
     = thenE (outcome (firstViolation xs)) (\<lambda>_.
       thenE (outcome (firstViolation ys)) (\<lambda>_.
       thenE (outcome (firstViolation zs)) (\<lambda>_. Inr True)))"
  by (cases "firstViolation xs"; cases "firstViolation ys"; cases "firstViolation zs")
     (simp_all add: firstViolation_append verdict_def)

lemma validate_refines:
  assumes "outline \<noteq> JNull" "JNull \<notin> set (sectionsOf outline)"
  shows "validateOutlineContent outline
           = verdict (firstViolation (outlineChecks (\<lambda>key. 3) claimedMinLength outline))"
proof -
  obtain ov where ov: "getProp outline ''overview'' = Inr ov"
    using assms(1) by (cases outline) (simp_all add: getProp_def)
  obtain se where se: "getProp outline ''sections'' = Inr se"
    using assms(1) by (cases outline) (simp_all add: getProp_def)
  obtain ft where ft: "getProp outline ''finalThoughts'' = Inr ft"
    using assms(1) by (cases outline) (simp_all add: getProp_def)
  have a: "(if truthy ov then thenE (entries (the ov)) overviewLoop else Inr ())
        = outcome (firstViolation (case partOf outline ''overview'' of
        Some part \<Rightarrow>
          propertyChecks
            (\<lambda>key. ''Overview '' @ key @ '' contains placeholder or insufficient content: '')
            ''totalDuration'' (\<lambda>key. 3) None (\<lambda>j. []) (entriesOf part)
      | None \<Rightarrow> []))"
    using ov by (cases ov) (auto simp: partOf_def entries_entriesOf truthy_not_null overviewLoop_checks)
  have b: "(case se of Some (JArr xs) \<Rightarrow> sectionsLoop 0 xs | _ \<Rightarrow> Inr ())
        = outcome (firstViolation (sectionChecks claimedMinLength 0 (sectionsOf outline)))"
    using se assms(2) by (auto simp: sectionsOf_def sectionsLoop_checks split: option.splits json.splits)
  have c: "(if truthy ft then thenE (entries (the ft)) finalThoughtsLoop else Inr ())
        = outcome (firstViolation (case partOf outline ''finalThoughts'' of
          Some part \<Rightarrow>
            propertyChecks
              (\<lambda>key. ''Final thoughts '' @ key @ '' contains placeholder content: '')
              ''duration'' (\<lambda>key. 3) (Some ''keyTakeaways'')
              (\<lambda>j. ''Final thoughts takeaway '' @ showNat (j + 1)
                   @ '' contains placeholder content: '')
              (entriesOf part)
        | None \<Rightarrow> []))"
    using ft by (cases ft) (auto simp: partOf_def entries_entriesOf truthy_not_null finalThoughtsLoop_checks)
  show ?thesis
    unfolding validateOutlineContent_def outlineChecks_def verdict_outcome
    by (simp only: ov se ft thenE_Inr a b c)
qed

lemma showNat_1: "showNat (Suc 0) = ''1''"
  by (simp add: showNat.simps[of "Suc 0"] digitChar_def char_of_eval)

lemmas validate_eval = validateOutlineContent_def getProp_def entries_def hasPlaceholder_def
  placeholderTerms_def isValidDuration_def validDurations_def includesStr_def startsWith_def
  toLowerCase_def toLowerChar_def trim_def isSpace_def Let_def char_of_eval showNat_1

lemma lower_Solar: "toLowerCase ''Solar'' = ''solar''"
  by (simp add: toLowerCase_def toLowerChar_def Let_def char_of_eval)

lemma ph_solar: "\<not> hasPlaceholder ''solar''"
  by (simp add: hasPlaceholder_def placeholderTerms_def includesStr_def startsWith_def)

lemma trim_Solar: "trim ''Solar'' = ''Solar''"
  by (simp add: trim_def isSpace_def)

lemma short_code: "validateOutlineContent shortTitleOutline = Inr True"
  by (simp add: shortTitleOutline_def validateOutlineContent_def getProp_def entries_def Let_def
      lower_Solar ph_solar trim_Solar)

lemma short_claimed:
  "verdict (firstViolation (outlineChecks claimedMinLength claimedMinLength shortTitleOutline))
     = Inl (Error (''Overview title contains placeholder or insufficient content: ''
                   @ quoted ''Solar''))"
  by (simp add: shortTitleOutline_def outlineChecks_def partOf_def sectionsOf_def entriesOf_def
      getProp_def entries_def verdict_def violates_def claimedMinLength_def
      lower_Solar ph_solar trim_Solar)

lemma checked_code:
  "validateOutlineContent checkedOutline
     = Inl (Error (''Section 1 title contains placeholder content: '' @ quoted ''Solar''))"
  by (simp add: checkedOutline_def validate_eval)

lemma checked_shape: "checkedOutline \<noteq> JNull \<and> JNull \<notin> set (sectionsOf checkedOutline)"
  by (simp add: checkedOutline_def sectionsOf_def getProp_def)

section \<open>The estimate on a combined buffer\<close>

lemma estimate_closed: "estimateAudioDuration buf = (int (length buf) - 44 + 44100) div 88200"
  by (simp add: estimateAudioDuration_def Let_def round_div)

lemma estimate_of_payload:
  assumes "length (drop 44 out) = payloadBytes"
  shows "estimateAudioDuration out = (int payloadBytes + 44100) div 88200"
proof (cases "44 \<le> length out")
  case True
  then have "int (length out) - 44 = int payloadBytes" using assms by simp
  then show ?thesis by (simp add: estimate_closed)
next
  case False
  then have t: "payloadBytes = 0" using assms by simp
  have "0 \<le> int (length out) - 44 + 44100" "int (length out) - 44 + 44100 < 88200"
    using False by simp_all
  then have "(int (length out) - 44 + 44100) div 88200 = 0" by simp
  then show ?thesis by (simp add: estimate_closed t)
qed

lemma estimate_combined:
  assumes "buffers \<noteq> []" "list_all canonicalWav buffers" "headerFieldsFit buffers"
  shows "\<exists>out. combineWavBuffers buffers = Inr out
           \<and> estimateAudioDuration out
               = (int (sum_list (map (length \<circ> payload) buffers)) + 44100) div 88200"
proof -
  have "\<forall>b \<in> set buffers. 44 \<le> length b \<and> declaredDataSize b \<le> length b - 44"
    using assms(2) by (simp add: list_all_iff canonicalWav_def)
  then obtain out where o: "combineWavBuffers buffers = Inr out"
    and d: "drop 44 out = concat (map payload buffers)"
    using combine_ok[OF assms(1) _ assms(3)] by blast
  have "length (drop 44 out) = sum_list (map (length \<circ> payload) buffers)"
    unfolding d by (simp add: length_concat comp_def)
  then show ?thesis using o estimate_of_payload by blast
qed

lemma stereo_fits:
  "list_all canonicalWav [stereoSecond]" "headerFieldsFit [stereoSecond]"
  by (simp_all add: canonicalWav_def headerFieldsFit_def fields_stereo length_stereo payload_stereo
      Let_def)

lemma len_monoHeader: "length monoHeader = 44"
  by (simp add: monoHeader_def)

lemma length_monoSeconds: "length monoSeconds = 132344"
  by (simp add: monoSeconds_def len_monoHeader)

lemma est_monoSeconds: "estimateAudioDuration monoSeconds = 2"
  unfolding estimate_closed length_monoSeconds by simp

section \<open>The repair pass on valid JSON\<close>











lemma skipWs_split: "s = takeWhile isJsonWs s @ skipWs s"
  by (simp add: skipWs_def)



lemma skipWs_head: "skipWs s = c # r \<Longrightarrow> \<not> isJsonWs c"
  unfolding skipWs_def by (metis hd_dropWhile list.distinct(1) list.sel(1))







lemma startsWith_drop: "startsWith p t \<Longrightarrow> t = p @ drop (length p) t"
  by (metis append_take_drop_id startsWith_def)







































lemma fix_commaValue: "fixCommonJSONIssues commaValue = commaRepaired"
  by (simp add: commaValue_def commaRepaired_def fix_eval)

lemma parse_commaValue: "jsonParse commaValue = Some (JObj [(''a'', JStr ''x, y: z'')])"
  by (simp add: commaValue_def json_eval)

lemma parse_commaRepaired: "jsonParse commaRepaired = None"
  by (simp add: commaRepaired_def json_eval)






section \<open>Claims about the audio combiner\<close>

text \<open>
  C1 (amended). For every non-empty list of buffers that each hold a canonical 44-byte
  header whose declared data size does not exceed the bytes present, that share sample
  rate, bit depth and channel count, and for which the values of the fresh header fit
  its fields (block alignment in 16 bits, byte rate and \<open>36 + total payload\<close> in 32
  bits), \<open>combineWavBuffers\<close> returns a buffer whose bytes after offset 44 are the
  inputs' payloads concatenated in input order, whose data-chunk size field is the sum of
  the payload lengths, and whose RIFF size field is the output length minus 8.
\<close>

theorem combineWavBuffers_payload_and_sizes:
  assumes "buffers \<noteq> []"
    and "list_all canonicalWav buffers"
    and "sameFormat buffers"
    and "headerFieldsFit buffers"
  shows "\<exists>out. combineWavBuffers buffers = Inr out
           \<and> drop 44 out = concat (map payload buffers)
           \<and> declaredDataSize out = sum_list (map (length \<circ> payload) buffers)
           \<and> riffSizeOf out + 8 = length out"
proof -
  have "\<forall>b \<in> set buffers. 44 \<le> length b \<and> declaredDataSize b \<le> length b - 44"
    using assms(2) by (simp add: list_all_iff canonicalWav_def)
  with assms(1) show ?thesis using assms(4) by (rule combine_ok)
qed

theorem combineWavBuffers_payload_and_sizes_witness:
  "[monoClip, monoClip] \<noteq> [] \<and> list_all canonicalWav [monoClip, monoClip]
   \<and> sameFormat [monoClip, monoClip] \<and> headerFieldsFit [monoClip, monoClip]
   \<and> (\<exists>out. combineWavBuffers [monoClip, monoClip] = Inr out
           \<and> drop 44 out = [1, 0, 2, 0, 1, 0, 2, 0]
           \<and> declaredDataSize out = length [1, 0, 2, 0 :: byte] + length [1, 0, 2, 0 :: byte]
           \<and> riffSizeOf out + 8 = length out)"
proof -
  have h: "[monoClip, monoClip] \<noteq> []" "list_all canonicalWav [monoClip, monoClip]"
    "sameFormat [monoClip, monoClip]" "headerFieldsFit [monoClip, monoClip]"
    by (simp_all add: canonicalWav_def sameFormat_def headerFieldsFit_def fields_mono payload_mono)
  show ?thesis
    using h combineWavBuffers_payload_and_sizes[OF h] by (simp add: payload_mono)
qed

text \<open>
  C1 as stated fails when the summed payload no longer fits the 32-bit size fields:
  four canonical buffers of \<open>2^30\<close> payload bytes each share one format and declare no
  more data than they hold, yet the write of the RIFF size raises.
\<close>

theorem combineWavBuffers_total_overflow_counterexample:
  "canonicalWav gibWav \<and> sameFormat [gibWav, gibWav, gibWav, gibWav]
   \<and> combineWavBuffers [gibWav, gibWav, gibWav, gibWav] = Inl RangeError"
proof -
  have "combineWavBuffers [gibWav, gibWav, gibWav, gibWav] = Inl RangeError"
    by (rule combine_too_large) (simp_all add: payload_gib, simp_all add: gibWav_def len_gibHeader)
  moreover have "canonicalWav gibWav"
    by (simp add: canonicalWav_def declared_gib) (simp add: gibWav_def len_gibHeader)
  ultimately show ?thesis by (simp add: sameFormat_def)
qed

text \<open>
  C8 (amended). For every buffer the estimated duration is the payload byte count (total
  length minus 44) divided by the constant 88200 and rounded to the nearest second, a half
  rounding up; the header is not read. For every combined buffer, that is the result of
  \<open>combineWavBuffers\<close> on input buffers with a canonical header whose values fit the fresh
  header, the estimate is therefore the sum of the input payload lengths divided by 88200
  and rounded, whatever sample rate, bit depth and channel count the header states.
\<close>

theorem estimateAudioDuration_fixed_byte_rate:
  "estimateAudioDuration buf = (int (length buf) - 44 + 44100) div 88200
   \<and> (buffers \<noteq> [] \<and> list_all canonicalWav buffers \<and> headerFieldsFit buffers \<longrightarrow>
        (\<exists>out. combineWavBuffers buffers = Inr out
           \<and> estimateAudioDuration out
               = (int (sum_list (map (length \<circ> payload) buffers)) + 44100) div 88200))"
  using estimate_closed[of buf] estimate_combined[of buffers] by blast

theorem estimateAudioDuration_fixed_byte_rate_witness:
  "estimateAudioDuration monoSeconds = 2
   \<and> length monoSeconds = 44 + 132300
   \<and> [stereoSecond] \<noteq> [] \<and> list_all canonicalWav [stereoSecond]
   \<and> headerFieldsFit [stereoSecond]
   \<and> sum_list (map (length \<circ> payload) [stereoSecond]) = 176400
   \<and> (\<exists>out. combineWavBuffers [stereoSecond] = Inr out \<and> estimateAudioDuration out = 2)"
proof -
  have s: "sum_list (map (length \<circ> payload) [stereoSecond]) = 176400"
    by (simp add: payload_stereo)
  have "\<exists>out. combineWavBuffers [stereoSecond] = Inr out
          \<and> estimateAudioDuration out = (int 176400 + 44100) div 88200"
    using estimateAudioDuration_fixed_byte_rate[of monoSeconds "[stereoSecond]"] stereo_fits
    unfolding s by blast
  then have "\<exists>out. combineWavBuffers [stereoSecond] = Inr out \<and> estimateAudioDuration out = 2"
    by simp
  then show ?thesis
    using s stereo_fits est_monoSeconds length_monoSeconds by simp
qed

text \<open>
  C8 as stated fails on a combined stereo buffer: one second of 44.1 kHz 16-bit stereo
  (176400 payload bytes) is its own combination, its header gives one second, and the
  estimate is two.
\<close>

theorem estimateAudioDuration_ignores_header_counterexample:
  "combineWavBuffers [stereoSecond] = Inr stereoSecond
   \<and> estimateAudioDuration stereoSecond = 2 \<and> headerDuration stereoSecond = 1"
  by (simp only: combine_stereo est_stereo hdr_stereo)

section \<open>Claims about the sanitizer and the structured parse\<close>

text \<open>
  C4 (amended). \<open>cleanResponseForJSON\<close> is idempotent on every input whose sanitized
  form holds no well-formed \<open><think>...</think>\<close> span: for such \<open>x\<close>,
  \<open>cleanResponseForJSON (cleanResponseForJSON x) = cleanResponseForJSON x\<close>. (A code
  fence never survives the first pass, so the fences need no condition.)
\<close>

theorem cleanResponseForJSON_idempotent_without_think_span:
  assumes "\<not> hasThinkSpan (cleanResponseForJSON x)"
  shows "cleanResponseForJSON (cleanResponseForJSON x) = cleanResponseForJSON x"
  using assms clean_idempotent_if[of x] unfolding hasThinkSpan_def by blast

theorem cleanResponseForJSON_idempotent_without_think_span_witness:
  "\<not> hasThinkSpan (cleanResponseForJSON fencedObject)
   \<and> cleanResponseForJSON fencedObject = ''{\"a\": 1}''
   \<and> cleanResponseForJSON (cleanResponseForJSON fencedObject) = cleanResponseForJSON fencedObject"
proof -
  have c: "cleanResponseForJSON fencedObject = ''{\"a\": 1}''"
    by (simp add: fencedObject_def clean_eval)
  have h: "\<not> hasThinkSpan (cleanResponseForJSON fencedObject)"
    by (simp add: c hasThinkSpan_def thinkTag_def startsWith_def)
  show ?thesis
    using h c cleanResponseForJSON_idempotent_without_think_span[OF h] by simp
qed

text \<open>
  C4 as stated fails: removing the inner span of \<open>splitThink\<close> joins the pieces of an
  outer one, which only a second pass removes.
\<close>

theorem cleanResponseForJSON_not_idempotent_counterexample:
  "cleanResponseForJSON splitThink = ''<think>b</think>''
   \<and> cleanResponseForJSON (cleanResponseForJSON splitThink) = []
   \<and> cleanResponseForJSON (cleanResponseForJSON splitThink) \<noteq> cleanResponseForJSON splitThink"
  by (simp add: splitThink_def clean_cx1 clean_cx2)




text \<open>
  The condition on commas is needed as well: in the valid text \<open>{"a":"x, y: z"}\<close> the
  bare-key pattern matches inside the string value, and the repaired text no longer
  parses.
\<close>

lemma fixCommonJSONIssues_quotes_inside_string_value:
  "jsonParse commaValue = Some (JObj [(''a'', JStr ''x, y: z'')])
   \<and> fixCommonJSONIssues commaValue = commaRepaired
   \<and> jsonParse (fixCommonJSONIssues commaValue) = None"
  by (simp only: parse_commaValue fix_commaValue parse_commaRepaired simp_thms)

text \<open>
  C10. For every input whose sanitized form is shorter than 10 characters,
  \<open>parseJSONFromResponse\<close> raises the too-short error whatever the parser would
  make of the text, so the parse, repair and retry steps are reached only from length 10
  on.
\<close>

theorem parseJSONFromResponse_rejects_short:
  assumes "length (cleanResponseForJSON response) < 10"
  shows "parseJSONFromResponse parser response validateContent = Inl tooShort"
  using assms by (rule parse_short)

theorem parseJSONFromResponse_rejects_short_witness:
  "length (cleanResponseForJSON ''{\"a\":1}'') < 10
   \<and> JSON_parse (cleanResponseForJSON ''{\"a\":1}'') = Inr (JObj [(''a'', JNum 1)])
   \<and> parseJSONFromResponse JSON_parse ''{\"a\":1}'' True = Inl tooShort"
proof -
  have h: "length (cleanResponseForJSON ''{\"a\":1}'') < 10"
    by (simp add: clean_small)
  show ?thesis
    using h parseJSONFromResponse_rejects_short[OF h, of JSON_parse True]
    by (simp add: clean_small parse_small)
qed

section \<open>Claims about the streaming client\<close>

text \<open>
  C2 fails on the code. When the stream ends inside a thinking span, the \<open>[DONE]\<close>
  branch yields the withheld buffer, open tag included; and when a span is opened twice,
  the text after the first open tag is yielded at once, tag included.
\<close>

theorem streamChatCompletion_yields_open_think_tag:
  "streamChatCompletion unclosedThinkStream = Inr [''Hello '', ''<think>hmm'']
   \<and> streamChatCompletion nestedThinkStream = Inr [''<think>a'']
   \<and> includesStr ''<think>'' ''<think>hmm'' \<and> \<not> includesStr ''</think>'' ''<think>hmm''
   \<and> includesStr ''<think>'' ''<think>a'' \<and> \<not> includesStr ''</think>'' ''<think>a''"
  by (simp add: unclosedThinkStream_def nestedThinkStream_def stream_eval json_eval includesStr_def)

section \<open>Claims about the research stage and the request handler\<close>

text \<open>
  C7 (amended). When the search key is unset, every search raises the
  \<open>TAVILY_API_KEY is not configured\<close> error, and for every outline
  \<open>enrichWithWebSearch\<close> completes without raising and returns the outline with an
  empty \<open>searchContext\<close> list attached to every section.
\<close>

theorem enrichWithWebSearch_without_key:
  assumes "TAVILY_API_KEY env = None"
  shows "searchWeb (TAVILY_API_KEY env) (tavily env) q = Inl notConfigured
       \<and> snd (enrichWithWebSearch env outline contentText instructions)
           = Inr (outline\<lparr>sections := map attachEmpty (sections outline)\<rparr>)"
proof -
  have "map attachEmpty (sections outline)
          = map (\<lambda>s. s\<lparr>searchContext := Some []\<rparr>) (sections outline)"
    by (simp add: attachEmpty_def)
  then show ?thesis
    using assms enrich_unconfigured[OF assms, of outline contentText instructions]
    by (simp add: searchWeb_unconfigured)
qed

theorem enrichWithWebSearch_without_key_witness:
  "TAVILY_API_KEY (offlineEnv False) = None
   \<and> searchWeb (TAVILY_API_KEY (offlineEnv False)) (tavily (offlineEnv False)) ''solar''
       = Inl (Error ''TAVILY_API_KEY is not configured'')
   \<and> snd (enrichWithWebSearch (offlineEnv False) demoOutline ''text'' ''find trends'')
       = Inr (demoOutline\<lparr>sections := map attachEmpty (sections demoOutline)\<rparr>)"
proof -
  have h: "TAVILY_API_KEY (offlineEnv False) = None" by (simp add: offlineEnv_def)
  show ?thesis
    using h enrichWithWebSearch_without_key[OF h, of "''solar''" demoOutline "''text''" "''find trends''"]
    by (simp add: notConfigured_def)
qed

text \<open>
  C7 as stated fails in its last part: the sections come back with \<open>searchContext\<close>
  attached, as the empty list.
\<close>

theorem enrichWithWebSearch_attaches_empty_context_counterexample:
  "TAVILY_API_KEY (offlineEnv False) = None
   \<and> map searchContext (sections demoOutline) = [None, None, None]
   \<and> snd (enrichWithWebSearch (offlineEnv False) demoOutline ''text'' ''find trends'')
       = Inr (demoOutline\<lparr>sections := map attachEmpty (sections demoOutline)\<rparr>)
   \<and> map searchContext (map attachEmpty (sections demoOutline)) = [Some [], Some [], Some []]"
proof -
  have h: "TAVILY_API_KEY (offlineEnv False) = None" by (simp add: offlineEnv_def)
  have "snd (enrichWithWebSearch (offlineEnv False) demoOutline ''text'' ''find trends'')
       = Inr (demoOutline\<lparr>sections := map (\<lambda>s. s\<lparr>searchContext := Some []\<rparr>) (sections demoOutline)\<rparr>)"
    using h by (rule enrich_unconfigured)
  then show ?thesis
    using h by (simp add: attachEmpty_def demoOutline_def demoSection_def)
qed

text \<open>
  C9. Whatever the generator yields and however it ends: when it returns and every
  enqueue succeeds, the events sent end with a \<open>done\<close> event, which is the only one
  and comes with no \<open>error\<close> event; and in every run an \<open>error\<close> event is the last
  event sent, with no \<open>done\<close> event before it.
\<close>

theorem handleStream_done_and_error:
  "(snd gen = Inr v \<and> (\<forall>k. enqueueOk k) \<longrightarrow>
      (\<exists>evs. sent (handleStream enqueueOk generationId gen) = evs @ [DoneEvent]
             \<and> DoneEvent \<notin> set evs \<and> (\<forall>e. ErrorEvent e \<notin> set evs)))
   \<and> (\<forall>evs e later.
        sent (handleStream enqueueOk generationId gen) = evs @ ErrorEvent e # later \<longrightarrow>
          later = [] \<and> DoneEvent \<notin> set evs)"
proof -
  have fin: "\<exists>evs. sent (handleStream enqueueOk generationId gen) = evs @ [DoneEvent]
             \<and> DoneEvent \<notin> set evs \<and> (\<forall>e. ErrorEvent e \<notin> set evs)"
    if ok: "snd gen = Inr v \<and> (\<forall>k. enqueueOk k)"
  proof -
    obtain evs where
      "sent (handleStream enqueueOk generationId gen) = evs @ [DoneEvent]" "list_all isStreamEvent evs"
      using ok handle_success[of gen v enqueueOk generationId] by blast
    then show ?thesis using stream_not_special by blast
  qed
  have err: "later = [] \<and> DoneEvent \<notin> set evs"
    if a: "sent (handleStream enqueueOk generationId gen) = evs @ ErrorEvent e # later"
    for evs e later
  proof -
  obtain pre where pre: "list_all isStreamEvent pre"
    "sent (handleStream enqueueOk generationId gen) = pre
     \<or> sent (handleStream enqueueOk generationId gen) = pre @ [DoneEvent]
     \<or> (\<exists>e'. snd gen = Inl e' \<and> sent (handleStream enqueueOk generationId gen) = pre @ [ErrorEvent (message e')])"
    using handle_shape[of enqueueOk generationId gen] by blast
  have ns: "\<And>x. DoneEvent \<notin> set pre \<and> ErrorEvent x \<notin> set pre"
    using stream_not_special[OF pre(1)] by blast
  have "ErrorEvent e \<in> set (sent (handleStream enqueueOk generationId gen))" using a by simp
  then obtain e' where e': "sent (handleStream enqueueOk generationId gen) = pre @ [ErrorEvent (message e')]"
    using pre(2) ns by auto
  then have eq: "evs @ ErrorEvent e # later = pre @ [ErrorEvent (message e')]" using a by simp
  have npre: "ErrorEvent e \<notin> set pre" using ns by blast
  have l: "later = []"
  proof (rule ccontr)
    assume "later \<noteq> []"
    then have "later = butlast later @ [last later]" by simp
    then have "(evs @ ErrorEvent e # butlast later) @ [last later] = pre @ [ErrorEvent (message e')]"
      using eq by (metis append_Cons append_assoc)
    then have "evs @ ErrorEvent e # butlast later = pre" by (simp only: append1_eq_conv)
    then have "ErrorEvent e \<in> set pre" by (metis in_set_conv_decomp)
    then show False using npre by simp
  qed
  then have "evs @ [ErrorEvent e] = pre @ [ErrorEvent (message e')]" using eq by simp
  then have "evs = pre" by (simp only: append1_eq_conv)
  then show "later = [] \<and> DoneEvent \<notin> set evs" using l ns by blast
  qed
  show ?thesis using fin err by blast
qed

theorem handleStream_done_and_error_witness:
  "snd finishedRun = Inr () \<and> (\<forall>k. (\<lambda>k. True) k)
   \<and> sent (handleStream (\<lambda>k. True) None finishedRun)
       = [ProgressEvent (progressEvent Outline 0),
          ProgressEvent ((progressEvent Finalizing 100)\<lparr>result := Some ''{}''\<rparr>),
          CompleteEvent ''{}'' ((progressEvent Finalizing 100)\<lparr>result := Some ''{}''\<rparr>)]
         @ [DoneEvent]
   \<and> sent (handleStream (\<lambda>k. True) None failedRun)
       = [ProgressEvent (progressEvent Outline 0),
          ProgressEvent ((progressEvent Finalizing 100)\<lparr>error := Some ''boom''\<rparr>)]
         @ ErrorEvent ''boom'' # []"
proof -
  have s: "sent (handleStream (\<lambda>k. True) None finishedRun)
       = [ProgressEvent (progressEvent Outline 0),
          ProgressEvent ((progressEvent Finalizing 100)\<lparr>result := Some ''{}''\<rparr>),
          CompleteEvent ''{}'' ((progressEvent Finalizing 100)\<lparr>result := Some ''{}''\<rparr>)]
         @ [DoneEvent]"
    by (simp add: handleStream_def finishedRun_def sendEvent_def sendDone_def closeController_def
        progressEvent_def orElse_def Let_def)
  have f: "sent (handleStream (\<lambda>k. True) None failedRun)
       = [ProgressEvent (progressEvent Outline 0),
          ProgressEvent ((progressEvent Finalizing 100)\<lparr>error := Some ''boom''\<rparr>)]
         @ ErrorEvent ''boom'' # []"
    by (simp add: handleStream_def failedRun_def sendEvent_def sendDone_def closeController_def
        progressEvent_def orElse_def Let_def message_def)
  have h: "snd finishedRun = Inr ()" by (simp add: finishedRun_def)
  show ?thesis
    using h s f handleStream_done_and_error[of finishedRun "()" "\<lambda>k. True" None]
      handleStream_done_and_error[of failedRun "()" "\<lambda>k. True" None]
    by simp
qed


section \<open>Claims about the orchestrator\<close>

text \<open>
  C3. In every run of \<open>generatePodcastScript\<close> the progress values of the events the
  generator yields are integers between 0 and 100 and never decrease, and the last event
  of the run, on success and on failure alike, is a yielded event with progress 100. The
  reports to the constructor's optional callback lie between 0 and 100 as well; when no
  callback was passed, as in the request handler, the yielded events are all the events
  of the run.
\<close>

theorem generatePodcastScript_progress_of_yielded_events:
  "(\<forall>e \<in> set (fst (generatePodcastScript env contentText instructions)).
       0 \<le> progressOf e \<and> progressOf e \<le> 100)
   \<and> sorted (yieldedProgress (fst (generatePodcastScript env contentText instructions)))
   \<and> (\<not> onProgress env \<longrightarrow>
        sorted (map progressOf (fst (generatePodcastScript env contentText instructions))))
   \<and> endsWithFinal (fst (generatePodcastScript env contentText instructions))"
  using staged_range[OF script_staged[of env contentText instructions]]
        staged_sorted[OF script_staged[of env contentText instructions]]
        onlyYields_progress[OF script_quiet[of env contentText instructions]]
        script_final[of env contentText instructions]
  by simp

theorem generatePodcastScript_progress_of_yielded_events_witness:
  "fst (generatePodcastScript (offlineEnv False) ''Solar'' ''Short'') \<noteq> []
   \<and> \<not> onProgress (offlineEnv False)
   \<and> list_all (\<lambda>e. 0 \<le> progressOf e \<and> progressOf e \<le> 100)
        (fst (generatePodcastScript (offlineEnv False) ''Solar'' ''Short''))
   \<and> sorted (map progressOf (fst (generatePodcastScript (offlineEnv False) ''Solar'' ''Short'')))
   \<and> endsWithFinal (fst (generatePodcastScript (offlineEnv False) ''Solar'' ''Short''))"
  using generatePodcastScript_progress_of_yielded_events
          [of "offlineEnv False" "''Solar''" "''Short''"]
  by (auto simp: endsWithFinal_def offlineEnv_def list_all_iff)

text \<open>
  The reports to the optional callback follow a scale of their own and are not ordered
  with the yielded events: with a callback the outline stage reports 10, 10 and 30 before
  the generator yields 25.
\<close>

lemma callback_reports_use_their_own_scale:
  "take 4 (map progressOf (fst (generatePodcastScript (offlineEnv True) ''Solar'' ''Short'')))
     = [10, 10, 30, 25]"
proof -
  obtain rest where r:
    "map progressOf (fst (generatePodcastScript (offlineEnv True) ''Solar'' ''Short''))
       = [10, 10, 30, 25] @ rest"
    using offline_prefix by blast
  show ?thesis unfolding r by simp
qed

section \<open>Claims about the content validator\<close>

text \<open>
  C6 (amended). On an outline that is not \<open>null\<close> and has no \<open>null\<close> section (a
  property access raises a \<open>TypeError\<close> there), \<open>validateOutlineContent\<close> walks
  \<open>overview\<close>, each \<open>sections[i]\<close> and \<open>finalThoughts\<close> in this order and raises at
  the first check that fails, returning \<open>true\<close> when none does. The checks are: every
  string-valued property of the three parts, except a \<open>totalDuration\<close> (overview) or
  \<open>duration\<close> (section, final thoughts) that contains a whitelisted duration, and every
  string element of a section's \<open>keyPoints\<close> and of the \<open>keyTakeaways\<close>. A check fails
  when the lower-cased value contains a denylisted term or the trimmed value is shorter
  than the minimum: 3 for every field of the overview and of the final thoughts; in a
  section 3 for \<open>id\<close>, 8 for \<open>title\<close> and 5 for the other fields; 8 for key points and
  takeaways.
\<close>

theorem validateOutlineContent_raises_first_violation:
  assumes "outline \<noteq> JNull" "JNull \<notin> set (sectionsOf outline)"
  shows "validateOutlineContent outline
           = verdict (firstViolation (outlineChecks (\<lambda>key. 3) claimedMinLength outline))"
  using assms by (rule validate_refines)

theorem validateOutlineContent_raises_first_violation_witness:
  "checkedOutline \<noteq> JNull \<and> JNull \<notin> set (sectionsOf checkedOutline)
   \<and> validateOutlineContent checkedOutline
       = Inl (Error (''Section 1 title contains placeholder content: '' @ quoted ''Solar''))
   \<and> verdict (firstViolation (outlineChecks (\<lambda>key. 3) claimedMinLength checkedOutline))
       = Inl (Error (''Section 1 title contains placeholder content: '' @ quoted ''Solar''))"
  using validateOutlineContent_raises_first_violation[of checkedOutline]
        checked_code checked_shape
  by simp

text \<open>
  C6 as stated fails in the overview (and in the final thoughts), where the minimum
  length is 3 for every field: an overview title of five characters is accepted, although
  the minimum of 8 for a title would reject it.
\<close>

theorem validateOutlineContent_accepts_short_overview_title_counterexample:
  "validateOutlineContent shortTitleOutline = Inr True
   \<and> verdict (firstViolation (outlineChecks claimedMinLength claimedMinLength shortTitleOutline))
       = Inl (Error (''Overview title contains placeholder or insufficient content: ''
                     @ quoted ''Solar''))"
  using short_code short_claimed by simp


end
